theory Spec2Isabelle
  imports Complex_Main "HOL-Library.Multiset" "HOL-Library.Sublist"
begin

section \<open>Numbers\<close>

text \<open>
  The Python sources compute on floats (and numpy float64 arrays).  The embedding reads
  every float as a \<^typ>\<open>real\<close>: rounding, infinities and NaN are outside the model.
  Python's unbounded integers are \<^typ>\<open>int\<close>.
\<close>

definition hypot :: "real \<Rightarrow> real \<Rightarrow> real" where
  \<comment> \<open>\<^verbatim>\<open>math.hypot(a, b)\<close> and \<^verbatim>\<open>np.hypot(a, b)\<close>: the Euclidean norm of \<open>(a, b)\<close>.\<close>
  "hypot a b = sqrt (a * a + b * b)"

definition py_int :: "real \<Rightarrow> int" where
  \<comment> \<open>\<^verbatim>\<open>int(f)\<close> on a float: truncation towards zero.\<close>
  "py_int r = (if 0 \<le> r then \<lfloor>r\<rfloor> else \<lceil>r\<rceil>)"

section \<open>safety.py\<close>

type_synonym point = "real \<times> real"

record CollisionEvent =
  track_id :: int
  impact_frame :: int
  impact_point :: "int \<times> int"
  severity :: real

record SafetyMonitor =
  zone_center :: point
  radius :: real

text \<open>
  \<^verbatim>\<open>for i, (fx, fy) in enumerate(future_points)\<close>: the loop of \<^verbatim>\<open>check_track\<close>, with the
  index \<open>i\<close> of the point at the head of the remaining list.
\<close>

fun check_track_loop :: "SafetyMonitor \<Rightarrow> int \<Rightarrow> int \<Rightarrow> point list \<Rightarrow> CollisionEvent option" where
  "check_track_loop m tid i [] = None"
| "check_track_loop m tid i ((fx, fy) # rest) =
     (let (cx, cy) = zone_center m;
          dist = hypot (fx - cx) (fy - cy)
      in if dist < radius m
         then Some \<lparr>track_id = tid,
                    impact_frame = i + 1,
                    impact_point = (py_int fx, py_int fy),
                    severity = max 0 (1 - dist / radius m)\<rparr>
         else check_track_loop m tid (i + 1) rest)"

definition check_track :: "SafetyMonitor \<Rightarrow> int \<Rightarrow> point list \<Rightarrow> CollisionEvent option" where
  "check_track m tid future_points = check_track_loop m tid 0 future_points"

text \<open>
  \<^verbatim>\<open>check_all\<close> takes a dict; a dict iterates in insertion order, so it is an association
  list here.  \<^verbatim>\<open>if ev:\<close> tests an instance of a dataclass that defines neither
  \<^verbatim>\<open>__bool__\<close> nor \<^verbatim>\<open>__len__\<close>, so it holds exactly when \<open>ev\<close> is not \<^verbatim>\<open>None\<close>.
\<close>

fun collect_events :: "SafetyMonitor \<Rightarrow> (int \<times> point list) list \<Rightarrow> CollisionEvent list" where
  "collect_events m [] = []"
| "collect_events m ((tid, pts) # rest) =
     (case check_track m tid pts of
        Some ev \<Rightarrow> ev # collect_events m rest
      | None \<Rightarrow> collect_events m rest)"

definition check_all :: "SafetyMonitor \<Rightarrow> (int \<times> point list) list \<Rightarrow> CollisionEvent list" where
  \<comment> \<open>\<^verbatim>\<open>events.sort(key=lambda e: e.impact_frame)\<close>: Python's sort is stable, as \<open>sort_key\<close> is.\<close>
  "check_all m tracks = sort_key impact_frame (collect_events m tracks)"

definition danger :: "CollisionEvent list \<Rightarrow> bool" where
  \<comment> \<open>main.py: \<^verbatim>\<open>danger = len(events) > 0\<close>\<close>
  "danger events = (length events > 0)"

definition inside_zone :: "SafetyMonitor \<Rightarrow> point \<Rightarrow> bool" where
  "inside_zone m p = (hypot (fst p - fst (zone_center m)) (snd p - snd (zone_center m)) < radius m)"

definition dist_to_center :: "SafetyMonitor \<Rightarrow> point \<Rightarrow> real" where
  "dist_to_center m p = hypot (fst p - fst (zone_center m)) (snd p - snd (zone_center m))"

section \<open>predictor.py\<close>

datatype py_error = ValueError | LinAlgError | OverflowError

definition predict_linear :: "real \<Rightarrow> real \<Rightarrow> real \<Rightarrow> real \<Rightarrow> int \<Rightarrow> point list" where
  \<comment> \<open>\<^verbatim>\<open>range(1, horizon + 1)\<close> is the list \<open>[1..horizon]\<close>, empty when \<open>horizon < 1\<close>.\<close>
  "predict_linear cx cy vx vy hor =
     map (\<lambda>t. (cx + vx * of_int t, cy + vy * of_int t)) [1..hor]"

record TrajectoryPredictor =
  horizon :: int
  history_len :: int
  vx_hist :: "real list"
  vy_hist :: "real list"

definition TrajectoryPredictor_init :: "int \<Rightarrow> int \<Rightarrow> py_error + TrajectoryPredictor" where
  \<comment> \<open>\<^verbatim>\<open>deque(maxlen=history_len)\<close> reads \<open>maxlen\<close> as a C \<^verbatim>\<open>Py_ssize_t\<close> (of 64 bits): an
      integer outside \<open>-2\<^sup>6\<^sup>3 \<dots> 2\<^sup>6\<^sup>3 - 1\<close> raises OverflowError, a negative one inside
      it raises ValueError.  Both arguments are integers here; \<open>horizon\<close> is stored
      unchecked.\<close>
  "TrajectoryPredictor_init hist_len hor =
     (if hist_len < - (2 ^ 63) \<or> 2 ^ 63 \<le> hist_len then Inl OverflowError
      else if hist_len < 0 then Inl ValueError
      else Inr \<lparr>horizon = hor, history_len = hist_len, vx_hist = [], vy_hist = []\<rparr>)"

definition default_history_len :: int where
  "default_history_len = 8"

definition default_horizon :: int where
  \<comment> \<open>the default of the parameter \<open>horizon\<close> of \<^verbatim>\<open>TrajectoryPredictor.__init__\<close>\<close>
  "default_horizon = 30"

definition HORIZON :: int where
  \<comment> \<open>main.py's configuration block; every predictor of the pipeline is built with it\<close>
  "HORIZON = 40"

definition deque_append :: "int \<Rightarrow> real list \<Rightarrow> real \<Rightarrow> real list" where
  \<comment> \<open>\<^verbatim>\<open>deque.append\<close> on a bounded deque: append on the right, then drop the oldest
      (leftmost) element when the length exceeds \<open>maxlen\<close>.\<close>
  "deque_append maxlen d v =
     (let d' = d @ [v] in if maxlen < int (length d') then tl d' else d')"

definition np_diff :: "real list \<Rightarrow> real list" where
  "np_diff xs = map2 (\<lambda>a b. b - a) xs (tl xs)"

definition np_mean :: "real list \<Rightarrow> real" where
  "np_mean xs = sum_list xs / real (length xs)"

definition np_clip :: "real \<Rightarrow> real \<Rightarrow> real \<Rightarrow> real" where
  "np_clip a lo hi = min (max a lo) hi"

definition MAX_A :: real where
  "MAX_A = 2"

definition update_and_predict ::
  "TrajectoryPredictor \<Rightarrow> real \<Rightarrow> real \<Rightarrow> real \<Rightarrow> real \<Rightarrow> TrajectoryPredictor \<times> point list" where
  "update_and_predict p cx cy vx vy =
     (let p' = p\<lparr>vx_hist := deque_append (history_len p) (vx_hist p) vx,
                  vy_hist := deque_append (history_len p) (vy_hist p) vy\<rparr>
      in if length (vx_hist p') < 2
         then (p', predict_linear cx cy vx vy (horizon p'))
         else
           (let ax = np_clip (np_mean (np_diff (vx_hist p'))) (- MAX_A) MAX_A;
                ay = np_clip (np_mean (np_diff (vy_hist p'))) (- MAX_A) MAX_A
            in (p', map (\<lambda>t. (cx + vx * of_int t + 0.5 * ax * of_int t * of_int t,
                                cy + vy * of_int t + 0.5 * ay * of_int t * of_int t))
                        [1..horizon p'])))"

definition SafetyMonitor_init :: "point \<Rightarrow> real \<Rightarrow> py_error + SafetyMonitor" where
  \<comment> \<open>\<^verbatim>\<open>SafetyMonitor.__init__\<close> stores both arguments; it has no check and no raise.\<close>
  "SafetyMonitor_init zc r = Inr \<lparr>zone_center = zc, radius = r\<rparr>"

definition ZONE_RADIUS :: real where
  "ZONE_RADIUS = 120"

section \<open>state_estimator.py: the filter of one object\<close>

type_synonym mat = "real list list"

definition mat_mul :: "mat \<Rightarrow> mat \<Rightarrow> mat" where
  \<comment> \<open>\<^verbatim>\<open>A @ B\<close>\<close>
  "mat_mul A B = map (\<lambda>row. map (\<lambda>col. sum_list (map2 (*) row col)) (transpose B)) A"

definition mat_T :: "mat \<Rightarrow> mat" where
  "mat_T A = transpose A"

definition mat_add :: "mat \<Rightarrow> mat \<Rightarrow> mat" where
  "mat_add A B = map2 (map2 (+)) A B"

definition mat_sub :: "mat \<Rightarrow> mat \<Rightarrow> mat" where
  "mat_sub A B = map2 (map2 (-)) A B"

definition mat_scale :: "mat \<Rightarrow> real \<Rightarrow> mat" where
  "mat_scale A c = map (map (\<lambda>a. a * c)) A"

definition np_eye :: "nat \<Rightarrow> mat" where
  "np_eye n = map (\<lambda>i. map (\<lambda>j. if i = j then 1 else 0) [0..<n]) [0..<n]"

definition np_linalg_inv :: "mat \<Rightarrow> py_error + mat" where
  \<comment> \<open>\<^verbatim>\<open>np.linalg.inv\<close> at the only shape the filter gives it, 2 by 2: it raises
      LinAlgError on a singular matrix (and on one that is not square).\<close>
  "np_linalg_inv S =
     (case S of
        [[a, b], [c, d]] \<Rightarrow>
          (let det = a * d - b * c
           in if det = 0 then Inl LinAlgError
              else Inr [[d / det, - b / det], [- c / det, a / det]])
      | _ \<Rightarrow> Inl LinAlgError)"

text \<open>
  The attributes \<open>F\<close>, \<open>H\<close>, \<open>Q\<close>, \<open>R\<close> and \<open>max_missed\<close> of an \<^verbatim>\<open>ObjectKalman\<close> are set in
  \<^verbatim>\<open>__init__\<close> to fixed values and assigned nowhere else, so they are constants here.  The
  attributes \<open>x\<close> and \<open>P\<close> are the fields \<open>state_x\<close> and \<open>cov_P\<close>.
\<close>

definition F_mat :: mat where
  "F_mat = [[1, 0, 1, 0], [0, 1, 0, 1], [0, 0, 1, 0], [0, 0, 0, 1]]"

definition H_mat :: mat where
  "H_mat = [[1, 0, 0, 0], [0, 1, 0, 0]]"

definition Q_mat :: mat where
  "Q_mat = mat_scale (np_eye 4) 1"

definition R_mat :: mat where
  "R_mat = mat_scale (np_eye 2) 10"

definition max_missed :: int where
  "max_missed = 10"

record ObjectKalman =
  state_x :: mat
  cov_P :: mat
  age :: int
  missed :: int

definition ObjectKalman_init :: "real \<Rightarrow> real \<Rightarrow> ObjectKalman" where
  "ObjectKalman_init cx cy =
     \<lparr>state_x = [[cx], [cy], [0], [0]], cov_P = mat_scale (np_eye 4) 500, age = 0, missed = 0\<rparr>"

definition predict :: "ObjectKalman \<Rightarrow> ObjectKalman" where
  "predict t =
     t\<lparr>state_x := mat_mul F_mat (state_x t),
       cov_P := mat_add (mat_mul (mat_mul F_mat (cov_P t)) (mat_T F_mat)) Q_mat,
       missed := missed t + 1,
       age := age t + 1\<rparr>"

definition innovation_cov :: "ObjectKalman \<Rightarrow> mat" where
  \<comment> \<open>\<^verbatim>\<open>S = self.H @ self.P @ self.H.T + self.R\<close>\<close>
  "innovation_cov t = mat_add (mat_mul (mat_mul H_mat (cov_P t)) (mat_T H_mat)) R_mat"

definition kalman_update :: "ObjectKalman \<Rightarrow> real \<Rightarrow> real \<Rightarrow> py_error + ObjectKalman" where
  \<comment> \<open>\<^verbatim>\<open>ObjectKalman.update\<close>.  The inversion is not inside any \<^verbatim>\<open>try\<close>: its error leaves
      the method before any attribute is assigned.\<close>
  "kalman_update t cx cy =
     (let z = [[cx], [cy]];
          S = innovation_cov t
      in case np_linalg_inv S of
           Inl e \<Rightarrow> Inl e
         | Inr Sinv \<Rightarrow>
             (let K = mat_mul (mat_mul (cov_P t) (mat_T H_mat)) Sinv;
                  y = mat_sub z (mat_mul H_mat (state_x t))
              in Inr (t\<lparr>state_x := mat_add (state_x t) (mat_mul K y),
                        cov_P := mat_mul (mat_sub (np_eye 4) (mat_mul K H_mat)) (cov_P t),
                        missed := 0\<rparr>)))"

definition position :: "ObjectKalman \<Rightarrow> real \<times> real" where
  "position t = (state_x t ! 0 ! 0, state_x t ! 1 ! 0)"

definition velocity :: "ObjectKalman \<Rightarrow> real \<times> real" where
  "velocity t = (state_x t ! 2 ! 0, state_x t ! 3 ! 0)"

definition speed :: "ObjectKalman \<Rightarrow> real" where
  "speed t = hypot (fst (velocity t)) (snd (velocity t))"

definition stale :: "ObjectKalman \<Rightarrow> bool" where
  "stale t = (missed t \<ge> max_missed)"

section \<open>state_estimator.py: the pool of filters\<close>

type_synonym detection = "real \<times> real \<times> real \<times> real"

record StateEstimator =
  tracks :: "ObjectKalman list"
  max_distance :: real
  next_id :: int
  track_ids :: "int list"

definition StateEstimator_init :: "real \<Rightarrow> StateEstimator" where
  "StateEstimator_init max_dist = \<lparr>tracks = [], max_distance = max_dist, next_id = 0, track_ids = []\<rparr>"

record TrackState =
  s_id :: int
  s_cx :: real
  s_cy :: real
  s_vx :: real
  s_vy :: real
  s_speed :: real
  s_w :: real
  s_h :: real
  s_age :: int

text \<open>
  The inner loop of step 2, \<^verbatim>\<open>for ti, track in enumerate(self.tracks)\<close>: the remaining
  tracks, the index \<open>ti\<close> of the first of them, and the pair \<open>(best_dist, best_tidx)\<close>.
\<close>

fun find_best ::
  "ObjectKalman list \<Rightarrow> nat set \<Rightarrow> real \<Rightarrow> real \<Rightarrow> nat \<Rightarrow> real \<times> int \<Rightarrow> real \<times> int" where
  "find_best [] matched_track_idx cx cy ti (best_dist, best_tidx) = (best_dist, best_tidx)"
| "find_best (track # rest) matched_track_idx cx cy ti (best_dist, best_tidx) =
     (if ti \<in> matched_track_idx
      then find_best rest matched_track_idx cx cy (ti + 1) (best_dist, best_tidx)
      else
        (let (tx, ty) = position track;
             dist = hypot (cx - tx) (cy - ty)
         in if dist < best_dist
            then find_best rest matched_track_idx cx cy (ti + 1) (dist, int ti)
            else find_best rest matched_track_idx cx cy (ti + 1) (best_dist, best_tidx)))"

text \<open>
  The outer loop of step 2, \<^verbatim>\<open>for di, (cx, cy, w, h) in enumerate(detections)\<close>, on the
  triple of the tracks, \<open>matched_track_idx\<close> and \<open>matched_det_idx\<close>.  An error of
  \<^verbatim>\<open>update\<close> leaves the loop.
\<close>

fun associate ::
  "detection list \<Rightarrow> nat \<Rightarrow> real \<Rightarrow> ObjectKalman list \<times> nat set \<times> nat set
     \<Rightarrow> py_error + ObjectKalman list \<times> nat set \<times> nat set" where
  "associate [] di max_dist st = Inr st"
| "associate ((cx, cy, w, h) # rest) di max_dist (trks, matched_track_idx, matched_det_idx) =
     (let (best_dist, best_tidx) = find_best trks matched_track_idx cx cy 0 (max_dist, - 1)
      in if best_tidx \<ge> 0
         then (case kalman_update (trks ! nat best_tidx) cx cy of
                 Inl e \<Rightarrow> Inl e
               | Inr t' \<Rightarrow>
                   associate rest (di + 1) max_dist
                     (trks[nat best_tidx := t'],
                      insert (nat best_tidx) matched_track_idx,
                      insert di matched_det_idx))
         else associate rest (di + 1) max_dist (trks, matched_track_idx, matched_det_idx))"

text \<open>Step 3, the second loop over \<^verbatim>\<open>enumerate(detections)\<close>.\<close>

fun birth :: "detection list \<Rightarrow> nat \<Rightarrow> nat set \<Rightarrow> StateEstimator \<Rightarrow> StateEstimator" where
  "birth [] di matched_det_idx s = s"
| "birth ((cx, cy, w, h) # rest) di matched_det_idx s =
     (if di \<notin> matched_det_idx
      then birth rest (di + 1) matched_det_idx
             (s\<lparr>tracks := tracks s @ [ObjectKalman_init cx cy],
                track_ids := track_ids s @ [next_id s],
                next_id := next_id s + 1\<rparr>)
      else birth rest (di + 1) matched_det_idx s)"

definition prune :: "StateEstimator \<Rightarrow> StateEstimator" where
  "prune s =
     (let alive = filter (\<lambda>(t, tid). \<not> stale t) (zip (tracks s) (track_ids s))
      in s\<lparr>tracks := map fst alive, track_ids := map snd alive\<rparr>)"

definition py_round :: "real \<Rightarrow> int" where
  \<comment> \<open>\<^verbatim>\<open>round(f)\<close>: to the nearest integer, a tie to the even one; the identity on an integer.\<close>
  "py_round r =
     (let f = \<lfloor>r\<rfloor>; d = r - of_int f
      in if d < 1 / 2 then f
         else if 1 / 2 < d then f + 1
         else if even f then f else f + 1)"

text \<open>
  Step 5 builds a dict by comprehension.  A dict keeps its keys in the order of their first
  insertion and a later value for a key that is already there replaces the earlier one in
  place: the association list and \<open>dict_set\<close>.
\<close>

fun dict_set :: "'k \<Rightarrow> 'v \<Rightarrow> ('k \<times> 'v) list \<Rightarrow> ('k \<times> 'v) list" where
  "dict_set k v [] = [(k, v)]"
| "dict_set k v ((k', v') # rest) =
     (if k' = k then (k, v) # rest else (k', v') # dict_set k v rest)"

fun build_det_map ::
  "detection list \<Rightarrow> ((int \<times> int) \<times> real \<times> real) list \<Rightarrow> ((int \<times> int) \<times> real \<times> real) list" where
  "build_det_map [] dm = dm"
| "build_det_map ((cx, cy, w, h) # rest) dm =
     build_det_map rest (dict_set (py_round cx, py_round cy) (w, h) dm)"

text \<open>
  The loop of step 6 over \<^verbatim>\<open>det_map.items()\<close>, on the pair \<open>(best_d, best_wh)\<close>.
\<close>

fun closest_wh ::
  "((int \<times> int) \<times> real \<times> real) list \<Rightarrow> real \<Rightarrow> real \<Rightarrow> real \<times> real \<times> real \<Rightarrow> real \<times> real \<times> real" where
  "closest_wh [] px py (best_d, best_wh) = (best_d, best_wh)"
| "closest_wh (((dcx, dcy), (dw, dh)) # rest) px py (best_d, best_wh) =
     (let d = hypot (px - of_int dcx) (py - of_int dcy)
      in if d < best_d
         then closest_wh rest px py (d, (dw, dh))
         else closest_wh rest px py (best_d, best_wh))"

definition track_result ::
  "((int \<times> int) \<times> real \<times> real) list \<Rightarrow> ObjectKalman \<times> int \<Rightarrow> TrackState" where
  "track_result det_map = (\<lambda>(track, tid).
     (let (px, py) = position track;
          (vx, vy) = velocity track;
          (best_d, best_wh) = closest_wh det_map px py (9999, (40, 40))
      in \<lparr>s_id = tid, s_cx = px, s_cy = py, s_vx = vx, s_vy = vy, s_speed = speed track,
          s_w = fst best_wh, s_h = snd best_wh, s_age = age track\<rparr>))"

definition update :: "StateEstimator \<Rightarrow> detection list \<Rightarrow> py_error + StateEstimator \<times> TrackState list" where
  "update s detections =
     (let trks1 = map predict (tracks s)
      in case associate detections 0 (max_distance s) (trks1, {}, {}) of
           Inl e \<Rightarrow> Inl e
         | Inr (trks2, matched_track_idx, matched_det_idx) \<Rightarrow>
             (let s3 = birth detections 0 matched_det_idx (s\<lparr>tracks := trks2\<rparr>);
                  s4 = prune s3;
                  det_map = build_det_map detections []
              in Inr (s4, map (track_result det_map) (zip (tracks s4) (track_ids s4)))))"

section \<open>What the specification says of the forecast\<close>

text \<open>
  The specification's words for the quadratic model, to compare the code with: the mean of the
  consecutive differences of a velocity history, and the clamp to a magnitude of at most 2.
\<close>

definition spec_mean_of_differences :: "real list \<Rightarrow> real" where
  "spec_mean_of_differences h =
     (\<Sum>i < length h - 1. h ! (i + 1) - h ! i) / real (length h - 1)"

definition spec_clamp :: "real \<Rightarrow> real" where
  "spec_clamp a = (if a < - 2 then - 2 else if 2 < a then 2 else a)"

section \<open>main.py: the estimator and the predictors over the frames\<close>

definition default_max_distance :: real where
  \<comment> \<open>the default of \<^verbatim>\<open>StateEstimator.__init__\<close>, and the value main.py passes\<close>
  "default_max_distance = 80"

text \<open>
  The loop of main.py calls \<^verbatim>\<open>estimator.update(detections)\<close> once a frame and has no handler
  around it: \<open>run_updates\<close> is the estimator after the frames of a list, or the error that
  ended the run.
\<close>

fun run_updates :: "StateEstimator \<Rightarrow> detection list list \<Rightarrow> py_error + StateEstimator" where
  "run_updates s [] = Inr s"
| "run_updates s (detections # frames) =
     (case update s detections of
        Inl e \<Rightarrow> Inl e
      | Inr (s', states) \<Rightarrow> run_updates s' frames)"

definition delete_dead ::
  "(int \<times> TrajectoryPredictor) list \<Rightarrow> TrackState list \<Rightarrow> (int \<times> TrajectoryPredictor) list" where
  \<comment> \<open>\<^verbatim>\<open>for dead in [k for k in predictors if k not in {s["id"] for s in states}]:
      del predictors[dead]\<close>\<close>
  "delete_dead predictors states = filter (\<lambda>(k, p). k \<in> set (map s_id states)) predictors"

section \<open>Properties of the pool\<close>

definition track_dist :: "ObjectKalman \<Rightarrow> real \<Rightarrow> real \<Rightarrow> real" where
  \<comment> \<open>\<^verbatim>\<open>np.hypot(cx - tx, cy - ty)\<close> for \<^verbatim>\<open>tx, ty = track.position\<close>\<close>
  "track_dist track cx cy = hypot (cx - fst (position track)) (cy - snd (position track))"



definition unmatched :: "detection list \<Rightarrow> nat set \<Rightarrow> detection list" where
  \<comment> \<open>the detections whose index is not in \<open>matched_det_idx\<close>, in the order of the list\<close>
  "unmatched detections matched_det_idx =
     map snd (filter (\<lambda>(di, d). di \<notin> matched_det_idx) (enumerate 0 detections))"

text \<open>
  The invariant of the pool: the lists \<open>tracks\<close> and \<open>track_ids\<close> are parallel, the
  identifiers stand in strictly increasing order, every one of them is below \<open>_next_id\<close>, and
  the count of misses of every track is at least 0 and below \<open>max_missed\<close>.
\<close>

definition pool_inv :: "StateEstimator \<Rightarrow> bool" where
  "pool_inv s =
     (length (track_ids s) = length (tracks s) \<and>
      sorted_wrt (<) (track_ids s) \<and>
      (\<forall>tid \<in> set (track_ids s). tid < next_id s) \<and>
      (\<forall>t \<in> set (tracks s). 0 \<le> missed t \<and> missed t < max_missed))"

section \<open>Facts about the numbers\<close>

lemma hypot_nonneg: "0 \<le> hypot a b"
  by (simp add: hypot_def)

lemma hypot_less_iff: "hypot a b < r \<longleftrightarrow> 0 < r \<and> a * a + b * b < r * r"
proof -
  have nn: "0 \<le> a * a + b * b" by simp
  show ?thesis
  proof (cases "0 < r")
    case True
    then have "sqrt (a * a + b * b) < r \<longleftrightarrow> a * a + b * b < r\<^sup>2"
      using nn by (metis less_eq_real_def real_less_lsqrt real_sqrt_less_iff real_sqrt_abs abs_of_pos)
    then show ?thesis using True by (simp add: hypot_def power2_eq_square)
  next
    case False
    then have "\<not> hypot a b < r" using hypot_nonneg [of a b] by linarith
    then show ?thesis using False by simp
  qed
qed

lemma hypot_zero_right: "hypot a 0 = \<bar>a\<bar>"
  by (simp add: hypot_def flip: power2_eq_square)

lemma hypot_zero_left: "hypot 0 b = \<bar>b\<bar>"
  by (simp add: hypot_def flip: power2_eq_square)

section \<open>The safety monitor\<close>

lemma check_track_loop_none:
  "check_track_loop m tid i pts = None \<longleftrightarrow> (\<forall>p \<in> set pts. \<not> inside_zone m p)"
proof (induction pts arbitrary: i)
  case Nil
  show ?case by simp
next
  case (Cons p pts)
  obtain fx fy where p: "p = (fx, fy)" by (cases p)
  obtain cx cy where c: "zone_center m = (cx, cy)" by (cases "zone_center m")
  show ?case
  proof (cases "inside_zone m p")
    case True
    then show ?thesis using p c by (simp add: inside_zone_def)
  next
    case False
    then show ?thesis using p c Cons.IH [of "i + 1"] by (simp add: inside_zone_def)
  qed
qed

lemma check_track_loop_first:
  assumes "k < length pts" "inside_zone m (pts ! k)" "\<forall>j<k. \<not> inside_zone m (pts ! j)"
  shows "check_track_loop m tid i pts =
           Some \<lparr>track_id = tid, impact_frame = i + int k + 1,
                 impact_point = (py_int (fst (pts ! k)), py_int (snd (pts ! k))),
                 severity = max 0 (1 - dist_to_center m (pts ! k) / radius m)\<rparr>"
  using assms
proof (induction pts arbitrary: i k)
  case Nil
  then show ?case by simp
next
  case (Cons p pts)
  obtain fx fy where p: "p = (fx, fy)" by (cases p)
  obtain cx cy where c: "zone_center m = (cx, cy)" by (cases "zone_center m")
  show ?case
  proof (cases k)
    case 0
    with Cons.prems p c show ?thesis
      by (simp add: inside_zone_def dist_to_center_def)
  next
    case (Suc k')
    from Cons.prems(3) Suc have notin: "\<not> inside_zone m p" by auto
    have "\<forall>j<k'. \<not> inside_zone m (pts ! j)"
      using Cons.prems(3) Suc by auto
    with Cons.IH [of k' "i + 1"] Cons.prems Suc
    have "check_track_loop m tid (i + 1) pts =
           Some \<lparr>track_id = tid, impact_frame = i + 1 + int k' + 1,
                 impact_point = (py_int (fst (pts ! k')), py_int (snd (pts ! k'))),
                 severity = max 0 (1 - dist_to_center m (pts ! k') / radius m)\<rparr>"
      by simp
    with notin p c Suc show ?thesis
      by (simp add: inside_zone_def)
  qed
qed

text \<open>
  Claim C1, as the code has it.  \<^verbatim>\<open>check_track\<close> returns no event exactly when no point of the
  forecast is strictly inside the zone.  Otherwise, with \<open>k\<close> the index of the first point
  strictly inside, it returns the event of the given track whose \<open>impact_frame\<close> is \<open>k + 1\<close>,
  whose \<open>severity\<close> is \<open>max 0 (1 - distance / radius)\<close> for that point, and whose
  \<open>impact_point\<close> is that point with each coordinate truncated towards zero to an integer
  (\<^verbatim>\<open>int(fx), int(fy)\<close>), not the point itself; later points are never looked at.  For the
  forecast from \<open>(100, 240)\<close> moving 40 a frame in \<open>x\<close>, against the zone of centre
  \<open>(320, 240)\<close> and radius 120, the event has \<open>impact_frame = 3\<close> and
  \<open>severity = 1 - 100 / 120\<close>.
\<close>

theorem check_track_first_intersection:
  "(check_track m tid pts = None \<longleftrightarrow> (\<forall>p \<in> set pts. \<not> inside_zone m p)) \<and>
   (\<forall>k < length pts.
      inside_zone m (pts ! k) \<and> (\<forall>j < k. \<not> inside_zone m (pts ! j)) \<longrightarrow>
      check_track m tid pts =
        Some \<lparr>track_id = tid, impact_frame = int k + 1,
              impact_point = (py_int (fst (pts ! k)), py_int (snd (pts ! k))),
              severity = max 0 (1 - dist_to_center m (pts ! k) / radius m)\<rparr>) \<and>
   check_track \<lparr>zone_center = (320, 240), radius = 120\<rparr> tid (predict_linear 100 240 40 0 HORIZON) =
     Some \<lparr>track_id = tid, impact_frame = 3, impact_point = (220, 240), severity = 1 - 100 / 120\<rparr>"
proof (intro conjI allI impI)
  show "check_track m tid pts = None \<longleftrightarrow> (\<forall>p \<in> set pts. \<not> inside_zone m p)"
    unfolding check_track_def by (rule check_track_loop_none)
next
  fix k
  assume "k < length pts" and "inside_zone m (pts ! k) \<and> (\<forall>j < k. \<not> inside_zone m (pts ! j))"
  then show "check_track m tid pts =
        Some \<lparr>track_id = tid, impact_frame = int k + 1,
              impact_point = (py_int (fst (pts ! k)), py_int (snd (pts ! k))),
              severity = max 0 (1 - dist_to_center m (pts ! k) / radius m)\<rparr>"
    unfolding check_track_def using check_track_loop_first [of k pts m tid 0] by simp
next
  show "check_track \<lparr>zone_center = (320, 240), radius = 120\<rparr> tid (predict_linear 100 240 40 0 HORIZON) =
     Some \<lparr>track_id = tid, impact_frame = 3, impact_point = (220, 240), severity = 1 - 100 / 120\<rparr>"
    by (simp add: check_track_def predict_linear_def HORIZON_def upto_rec1 hypot_less_iff hypot_zero_right py_int_def)
qed

theorem check_track_first_intersection_witness:
  "inside_zone \<lparr>zone_center = (0, 0), radius = 5\<rparr> (4, 0) \<and>
   \<not> inside_zone \<lparr>zone_center = (0, 0), radius = 5\<rparr> (9, 0) \<and>
   check_track \<lparr>zone_center = (0, 0), radius = 5\<rparr> 7 [(9, 0), (4, 0), (1, 0)] =
     Some \<lparr>track_id = 7, impact_frame = 2, impact_point = (4, 0), severity = 1 / 5\<rparr>"
proof -
  let ?m = "\<lparr>zone_center = (0, 0), radius = 5\<rparr> :: SafetyMonitor"
  let ?pts = "[(9, 0), (4, 0), (1, 0)] :: point list"
  have a: "inside_zone ?m (4, 0)"
    by (simp add: inside_zone_def hypot_less_iff)
  have b: "\<not> inside_zone ?m (9, 0)"
    by (simp add: inside_zone_def hypot_less_iff)
  have d: "dist_to_center ?m (4, 0) = 4"
    by (simp add: dist_to_center_def hypot_zero_right)
  have all: "\<forall>k < length ?pts.
      inside_zone ?m (?pts ! k) \<and> (\<forall>j < k. \<not> inside_zone ?m (?pts ! j)) \<longrightarrow>
      check_track ?m 7 ?pts =
        Some \<lparr>track_id = 7, impact_frame = int k + 1,
              impact_point = (py_int (fst (?pts ! k)), py_int (snd (?pts ! k))),
              severity = max 0 (1 - dist_to_center ?m (?pts ! k) / radius ?m)\<rparr>"
    using check_track_first_intersection [of ?m 7 ?pts] by blast
  have "inside_zone ?m (?pts ! 1) \<and> (\<forall>j < 1. \<not> inside_zone ?m (?pts ! j)) \<longrightarrow>
      check_track ?m 7 ?pts =
        Some \<lparr>track_id = 7, impact_frame = int 1 + 1,
              impact_point = (py_int (fst (?pts ! 1)), py_int (snd (?pts ! 1))),
              severity = max 0 (1 - dist_to_center ?m (?pts ! 1) / radius ?m)\<rparr>"
    using all [rule_format, of 1] by simp
  then have "check_track ?m 7 ?pts =
      Some \<lparr>track_id = 7, impact_frame = 2, impact_point = (4, 0), severity = 1 / 5\<rparr>"
    using a b d by (simp add: py_int_def)
  then show ?thesis using a b by simp
qed

text \<open>
  The claim as written has \<open>impact_point\<close> equal to the point: at the forecast point
  \<open>(320.5, 240)\<close> the event carries \<open>(320, 240)\<close>.
\<close>

theorem check_track_impact_point_counterexample:
  "check_track \<lparr>zone_center = (320, 240), radius = 120\<rparr> 1 [(641 / 2, 240)] =
     Some \<lparr>track_id = 1, impact_frame = 1, impact_point = (320, 240), severity = 239 / 240\<rparr> \<and>
   (real_of_int 320, real_of_int 240) \<noteq> (641 / 2, 240)"
  by (simp add: check_track_def hypot_less_iff hypot_zero_right py_int_def)

lemma collect_events_map_filter:
  "collect_events m trks = List.map_filter (\<lambda>(tid, pts). check_track m tid pts) trks"
  by (induction trks) (auto simp: List.map_filter_simps split: option.splits)

lemma collect_events_empty_iff:
  "collect_events m trks = [] \<longleftrightarrow> (\<forall>(tid, pts) \<in> set trks. check_track m tid pts = None)"
  by (induction trks) (auto split: option.splits)

text \<open>
  Claim C7.  \<^verbatim>\<open>check_all\<close> returns the events that \<^verbatim>\<open>check_track\<close> produces over the tracks in
  iteration order (the same events, as a multiset), in non-decreasing order of
  \<open>impact_frame\<close>; the events of one \<open>impact_frame\<close> keep the order of the tracks they come
  from; and the danger flag of main.py holds exactly when the list is not empty, that is
  exactly when some track has an event.
\<close>

theorem check_all_sorted_stable:
  "mset (check_all m trks) = mset (List.map_filter (\<lambda>(tid, pts). check_track m tid pts) trks) \<and>
   sorted (map impact_frame (check_all m trks)) \<and>
   (\<forall>k. filter (\<lambda>e. impact_frame e = k) (check_all m trks) =
        filter (\<lambda>e. impact_frame e = k)
          (List.map_filter (\<lambda>(tid, pts). check_track m tid pts) trks)) \<and>
   (danger (check_all m trks) \<longleftrightarrow> check_all m trks \<noteq> []) \<and>
   (danger (check_all m trks) \<longleftrightarrow> (\<exists>(tid, pts) \<in> set trks. check_track m tid pts \<noteq> None))"
proof (intro conjI allI)
  show "mset (check_all m trks) = mset (List.map_filter (\<lambda>(tid, pts). check_track m tid pts) trks)"
    by (simp add: check_all_def collect_events_map_filter)
  show "sorted (map impact_frame (check_all m trks))"
    by (simp add: check_all_def)
  show "filter (\<lambda>e. impact_frame e = k) (check_all m trks) =
        filter (\<lambda>e. impact_frame e = k)
          (List.map_filter (\<lambda>(tid, pts). check_track m tid pts) trks)" for k
    by (simp add: check_all_def collect_events_map_filter sort_key_stable)
  show "danger (check_all m trks) \<longleftrightarrow> check_all m trks \<noteq> []"
    by (simp add: danger_def)
  have "check_all m trks = [] \<longleftrightarrow> collect_events m trks = []"
    using mset_sort [of impact_frame "collect_events m trks"]
    by (metis check_all_def mset_zero_iff)
  moreover have "collect_events m trks \<noteq> [] \<longleftrightarrow>
      (\<exists>(tid, pts) \<in> set trks. check_track m tid pts \<noteq> None)"
    unfolding collect_events_empty_iff by fastforce
  ultimately show "danger (check_all m trks) \<longleftrightarrow> (\<exists>(tid, pts) \<in> set trks. check_track m tid pts \<noteq> None)"
    by (simp add: danger_def)
qed

text \<open>Four tracks, one of them without an event, two of them with the same frame.\<close>

lemma check_all_example:
  "check_all \<lparr>zone_center = (0, 0), radius = 5\<rparr>
     [(4, [(9, 0), (4, 0)]), (2, [(8, 0), (7, 0)]), (9, [(3, 0)]), (5, [(6, 0), (0, 2)])] =
   [\<lparr>track_id = 9, impact_frame = 1, impact_point = (3, 0), severity = 2 / 5\<rparr>,
    \<lparr>track_id = 4, impact_frame = 2, impact_point = (4, 0), severity = 1 / 5\<rparr>,
    \<lparr>track_id = 5, impact_frame = 2, impact_point = (0, 2), severity = 3 / 5\<rparr>]"
  by (simp add: check_all_def check_track_def hypot_less_iff hypot_zero_right hypot_zero_left py_int_def)

section \<open>The trajectory predictor\<close>

lemma length_np_diff: "length (np_diff xs) = length xs - 1"
  by (simp add: np_diff_def)

lemma nth_np_diff: "i < length xs - 1 \<Longrightarrow> np_diff xs ! i = xs ! (i + 1) - xs ! i"
  by (simp add: np_diff_def nth_tl)

lemma np_mean_diff_spec: "np_mean (np_diff xs) = spec_mean_of_differences xs"
proof -
  have "sum_list (np_diff xs) = (\<Sum>i < length xs - 1. np_diff xs ! i)"
    by (simp add: sum_list_sum_nth length_np_diff atLeast0LessThan)
  also have "\<dots> = (\<Sum>i < length xs - 1. xs ! (i + 1) - xs ! i)"
    by (rule sum.cong) (simp_all add: nth_np_diff)
  finally show ?thesis
    by (simp add: np_mean_def spec_mean_of_differences_def length_np_diff)
qed

lemma np_clip_spec: "np_clip a (- MAX_A) MAX_A = spec_clamp a"
  by (simp add: np_clip_def MAX_A_def spec_clamp_def)





lemma length_upto1: "length [1..h] = nat h"
  by simp



lemma update_and_predict_pts:
  "snd (update_and_predict p cx cy vx vy) =
     (if length (deque_append (history_len p) (vx_hist p) vx) < 2
      then map (\<lambda>t. (cx + vx * of_int t, cy + vy * of_int t)) [1..horizon p]
      else map (\<lambda>t. (cx + vx * of_int t +
                        0.5 * spec_clamp (spec_mean_of_differences
                                (deque_append (history_len p) (vx_hist p) vx)) * of_int t * of_int t,
                      cy + vy * of_int t +
                        0.5 * spec_clamp (spec_mean_of_differences
                                (deque_append (history_len p) (vy_hist p) vy)) * of_int t * of_int t))
             [1..horizon p])"
  by (simp add: update_and_predict_def Let_def predict_linear_def np_clip_spec np_mean_diff_spec)




lemma take_upto_prefix:
  assumes "0 \<le> h" "h \<le> H"
  shows "take (nat h) [1..H] = [1..h]"
proof (cases "h = H")
  case True
  then show ?thesis by simp
next
  case False
  with assms have "[1..H] = [1..h + 1 - 1] @ [h + 1..H]"
    by (intro upto_split1) simp_all
  then have "[1..H] = [1..h] @ [h + 1..H]" by simp
  then show ?thesis using assms by simp
qed

text \<open>
  Claim C6, as the code has it.  Whatever the state and the histories, and whichever branch is
  taken, the forecast is returned whole and has exactly \<open>horizon\<close> points when \<open>horizon\<close> is
  not negative (none when it is negative).  The points stand nearest frame first: the point at
  index \<open>i\<close> is the forecast for frame \<open>i + 1\<close>, by the linear formula when the history has
  fewer than 2 samples and by the quadratic one otherwise, and the forecast for a smaller
  horizon is a prefix of it.  The default of the parameter \<open>horizon\<close> of
  \<^verbatim>\<open>TrajectoryPredictor.__init__\<close> is 30, not 40: a predictor built with the defaults returns
  30 points.  The value 40 is \<^verbatim>\<open>HORIZON\<close> of main.py, which builds every predictor of the
  pipeline with \<^verbatim>\<open>horizon=HORIZON\<close>; those return 40 points.
\<close>

theorem update_and_predict_horizon_points:
  "let hx = deque_append (history_len p) (vx_hist p) vx;
       hy = deque_append (history_len p) (vy_hist p) vy;
       ax = np_clip (np_mean (np_diff hx)) (- MAX_A) MAX_A;
       ay = np_clip (np_mean (np_diff hy)) (- MAX_A) MAX_A;
       pts = snd (update_and_predict p cx cy vx vy)
   in length pts = nat (horizon p) \<and>
      (0 \<le> horizon p \<longrightarrow> int (length pts) = horizon p) \<and>
      (\<forall>i < length pts. pts ! i =
         (if length hx < 2
          then (cx + vx * real (i + 1), cy + vy * real (i + 1))
          else (cx + vx * real (i + 1) + 0.5 * ax * real (i + 1) * real (i + 1),
                cy + vy * real (i + 1) + 0.5 * ay * real (i + 1) * real (i + 1)))) \<and>
      (\<forall>h. 0 \<le> h \<and> h \<le> horizon p \<longrightarrow>
         snd (update_and_predict (p\<lparr>horizon := h\<rparr>) cx cy vx vy) = take (nat h) pts) \<and>
      TrajectoryPredictor_init default_history_len default_horizon =
        Inr \<lparr>horizon = 30, history_len = 8, vx_hist = [], vy_hist = []\<rparr> \<and>
      length (snd (update_and_predict
                \<lparr>horizon = 30, history_len = 8, vx_hist = [], vy_hist = []\<rparr> cx cy vx vy)) = 30 \<and>
      TrajectoryPredictor_init default_history_len HORIZON =
        Inr \<lparr>horizon = 40, history_len = 8, vx_hist = [], vy_hist = []\<rparr> \<and>
      length (snd (update_and_predict
                \<lparr>horizon = 40, history_len = 8, vx_hist = [], vy_hist = []\<rparr> cx cy vx vy)) = 40"
proof -
  let ?hx = "deque_append (history_len p) (vx_hist p) vx"
  let ?hy = "deque_append (history_len p) (vy_hist p) vy"
  let ?ax = "np_clip (np_mean (np_diff ?hx)) (- MAX_A) MAX_A"
  let ?ay = "np_clip (np_mean (np_diff ?hy)) (- MAX_A) MAX_A"
  let ?pts = "snd (update_and_predict p cx cy vx vy)"
  have len: "length ?pts = nat (horizon p)"
    unfolding update_and_predict_pts by simp
  have pt: "?pts ! i =
         (if length ?hx < 2
          then (cx + vx * real (i + 1), cy + vy * real (i + 1))
          else (cx + vx * real (i + 1) + 0.5 * ?ax * real (i + 1) * real (i + 1),
                cy + vy * real (i + 1) + 0.5 * ?ay * real (i + 1) * real (i + 1)))"
    if "i < length ?pts" for i
  proof -
    from that len have i: "i < nat (horizon p)" by simp
    then have n: "[1..horizon p] ! i = int i + 1"
      by (simp add: nth_upto)
    have l: "i < length [1..horizon p]" using i by simp
    show ?thesis
      unfolding update_and_predict_pts np_clip_spec np_mean_diff_spec
      using l n by (simp del: length_upto add: algebra_simps)
  qed
  have pre: "snd (update_and_predict (p\<lparr>horizon := h\<rparr>) cx cy vx vy) = take (nat h) ?pts"
    if "0 \<le> h \<and> h \<le> horizon p" for h
  proof -
    from that have "[1..h] = take (nat h) [1..horizon p]"
      by (simp add: take_upto_prefix)
    then show ?thesis
      unfolding update_and_predict_pts by (simp add: take_map)
  qed
  have d30: "TrajectoryPredictor_init default_history_len default_horizon =
        Inr \<lparr>horizon = 30, history_len = 8, vx_hist = [], vy_hist = []\<rparr>"
    by (simp add: TrajectoryPredictor_init_def default_history_len_def default_horizon_def)
  have d40: "TrajectoryPredictor_init default_history_len HORIZON =
        Inr \<lparr>horizon = 40, history_len = 8, vx_hist = [], vy_hist = []\<rparr>"
    by (simp add: TrajectoryPredictor_init_def default_history_len_def HORIZON_def)
  have l30: "length (snd (update_and_predict
                \<lparr>horizon = 30, history_len = 8, vx_hist = [], vy_hist = []\<rparr> cx cy vx vy)) = 30"
    unfolding update_and_predict_pts by simp
  have l40: "length (snd (update_and_predict
                \<lparr>horizon = 40, history_len = 8, vx_hist = [], vy_hist = []\<rparr> cx cy vx vy)) = 40"
    unfolding update_and_predict_pts by simp
  show ?thesis
    unfolding Let_def using len pt pre d30 d40 l30 l40 by simp
qed

theorem update_and_predict_horizon_points_witness:
  "snd (update_and_predict \<lparr>horizon = 2, history_len = 8, vx_hist = [], vy_hist = []\<rparr> 0 0 3 1) =
     [(3, 1), (6, 2)] \<and>
   snd (update_and_predict \<lparr>horizon = 2, history_len = 8, vx_hist = [1], vy_hist = [1]\<rparr> 0 0 3 1) =
     [(4, 1), (10, 2)] \<and>
   snd (update_and_predict \<lparr>horizon = 1, history_len = 8, vx_hist = [], vy_hist = []\<rparr> 0 0 3 1) =
     [(3, 1)]"
proof -
  let ?p = "\<lparr>horizon = 2, history_len = 8, vx_hist = [], vy_hist = []\<rparr>"
  let ?q = "\<lparr>horizon = 2, history_len = 8, vx_hist = [1], vy_hist = [1]\<rparr>"
  let ?P = "snd (update_and_predict ?p 0 0 3 1)"
  let ?Q = "snd (update_and_predict ?q 0 0 3 1)"
  note P = update_and_predict_horizon_points [of ?p 3 1 0 0, unfolded Let_def]
  note Q = update_and_predict_horizon_points [of ?q 3 1 0 0, unfolded Let_def]
  have lp: "length ?P = 2" using P [THEN conjunct1] by simp
  have lq: "length ?Q = 2" using Q [THEN conjunct1] by simp
  have hx: "deque_append 8 [1] 3 = [1, 3]" and hy: "deque_append 8 [1] 1 = [1, 1]"
    and h0: "deque_append 8 [] 3 = [3]"
    by (simp_all add: deque_append_def)
  have ax: "np_clip (np_mean (np_diff [1, 3])) (- MAX_A) MAX_A = 2"
    and ay: "np_clip (np_mean (np_diff [1, 1])) (- MAX_A) MAX_A = 0"
    by (simp_all add: np_clip_def np_mean_def np_diff_def MAX_A_def)
  have p0: "?P ! 0 = (3, 1)"
    using P [THEN conjunct2, THEN conjunct2, THEN conjunct1, rule_format, of 0] lp h0 by simp
  have p1: "?P ! 1 = (6, 2)"
    using P [THEN conjunct2, THEN conjunct2, THEN conjunct1, rule_format, of 1] lp h0 by simp
  have q0: "?Q ! 0 = (4, 1)"
    using Q [THEN conjunct2, THEN conjunct2, THEN conjunct1, rule_format, of 0] lq hx hy ax ay by simp
  have q1: "?Q ! 1 = (10, 2)"
    using Q [THEN conjunct2, THEN conjunct2, THEN conjunct1, rule_format, of 1] lq hx hy ax ay by simp
  have two: "xs = [xs ! 0, xs ! 1]" if "length xs = 2" for xs :: "point list"
    using that by (cases xs; cases "tl xs") auto
  have PQ: "?P = [(3, 1), (6, 2)]" "?Q = [(4, 1), (10, 2)]"
    using two [OF lp] two [OF lq] p0 p1 q0 q1 by simp_all
  have "0 \<le> (1::int) \<and> 1 \<le> horizon ?p \<longrightarrow>
      snd (update_and_predict (?p\<lparr>horizon := 1\<rparr>) 0 0 3 1) = take (nat 1) ?P"
    using P [THEN conjunct2, THEN conjunct2, THEN conjunct2, THEN conjunct1, rule_format, of 1]
    by blast
  then have "snd (update_and_predict \<lparr>horizon = 1, history_len = 8, vx_hist = [], vy_hist = []\<rparr> 0 0 3 1) =
      [(3, 1)]"
    using PQ(1) by simp
  with PQ show ?thesis by simp
qed

text \<open>
  The claim as written has 40 for the default horizon: the predictor that
  \<^verbatim>\<open>TrajectoryPredictor()\<close> builds has the horizon 30 and returns 30 points.
\<close>

theorem default_horizon_counterexample:
  "TrajectoryPredictor_init default_history_len default_horizon =
     Inr \<lparr>horizon = 30, history_len = 8, vx_hist = [], vy_hist = []\<rparr> \<and>
   length (snd (update_and_predict
             \<lparr>horizon = 30, history_len = 8, vx_hist = [], vy_hist = []\<rparr> 100 240 40 0)) = 30"
  by (simp add: TrajectoryPredictor_init_def default_history_len_def default_horizon_def
      update_and_predict_def deque_append_def predict_linear_def)

section \<open>Construction\<close>

lemma not_inside_nonpositive_radius: "radius m \<le> 0 \<Longrightarrow> \<not> inside_zone m pt"
  using hypot_nonneg [of "fst pt - fst (zone_center m)" "snd pt - snd (zone_center m)"]
  by (simp add: inside_zone_def)

text \<open>
  Claim C10, as the code has it.  Neither constructor checks the radius or the horizon:
  \<^verbatim>\<open>SafetyMonitor.__init__\<close> returns a monitor for every radius, and
  \<^verbatim>\<open>TrajectoryPredictor.__init__\<close> returns a predictor for every horizon, whenever the history
  length is one that \<^verbatim>\<open>deque\<close> takes as \<open>maxlen\<close> (such as the 8 of main.py).  A monitor whose
  radius is not positive reports no event for any forecast, and a predictor whose horizon is
  not positive returns the empty forecast.
\<close>

theorem constructors_do_not_validate:
  "SafetyMonitor_init zc r = Inr \<lparr>zone_center = zc, radius = r\<rparr> \<and>
   (0 \<le> hl \<and> hl < 2 ^ 63 \<longrightarrow>
      TrajectoryPredictor_init hl hor =
        Inr \<lparr>horizon = hor, history_len = hl, vx_hist = [], vy_hist = []\<rparr>) \<and>
   (r \<le> 0 \<longrightarrow> check_track \<lparr>zone_center = zc, radius = r\<rparr> tid pts = None) \<and>
   (horizon p \<le> 0 \<longrightarrow> snd (update_and_predict p cx cy vx vy) = [])"
proof (intro conjI impI)
  show "SafetyMonitor_init zc r = Inr \<lparr>zone_center = zc, radius = r\<rparr>"
    by (simp add: SafetyMonitor_init_def)
  show "TrajectoryPredictor_init hl hor =
      Inr \<lparr>horizon = hor, history_len = hl, vx_hist = [], vy_hist = []\<rparr>"
    if "0 \<le> hl \<and> hl < 2 ^ 63"
    using that by (simp add: TrajectoryPredictor_init_def)
  show "check_track \<lparr>zone_center = zc, radius = r\<rparr> tid pts = None" if "r \<le> 0"
    unfolding check_track_def check_track_loop_none
    using that by (simp add: not_inside_nonpositive_radius)
  show "snd (update_and_predict p cx cy vx vy) = []" if "horizon p \<le> 0"
    unfolding update_and_predict_pts using that by simp
qed

theorem constructors_do_not_validate_witness:
  "(0::real) \<le> 0 \<and> (0::int) \<le> 8 \<and> (8::int) < 2 ^ 63 \<and>
   TrajectoryPredictor_init 8 0 = Inr \<lparr>horizon = 0, history_len = 8, vx_hist = [], vy_hist = []\<rparr> \<and>
   check_track \<lparr>zone_center = (320, 240), radius = 0\<rparr> 1 [(320, 240)] = None \<and>
   snd (update_and_predict \<lparr>horizon = 0, history_len = 8, vx_hist = [], vy_hist = []\<rparr> 0 0 1 1) = []"
  using constructors_do_not_validate
          [of "(320, 240)" 0 8 0 1 "[(320, 240)]"
              "\<lparr>horizon = 0, history_len = 8, vx_hist = [], vy_hist = []\<rparr>" 0 0 1 1]
  by simp

text \<open>
  The claim as written has such values rejected: the radii 0 and -5 and the horizons 0 and
  -3 are accepted.
\<close>

theorem invalid_configuration_accepted_counterexample:
  "SafetyMonitor_init (320, 240) 0 = Inr \<lparr>zone_center = (320, 240), radius = 0\<rparr> \<and>
   SafetyMonitor_init (320, 240) (- 5) = Inr \<lparr>zone_center = (320, 240), radius = - 5\<rparr> \<and>
   TrajectoryPredictor_init 8 0 = Inr \<lparr>horizon = 0, history_len = 8, vx_hist = [], vy_hist = []\<rparr> \<and>
   TrajectoryPredictor_init 8 (- 3) =
     Inr \<lparr>horizon = - 3, history_len = 8, vx_hist = [], vy_hist = []\<rparr>"
  by (simp add: SafetyMonitor_init_def TrajectoryPredictor_init_def)

section \<open>The filter's update\<close>









section \<open>The nearest track of an observation\<close>

lemma find_best_Cons:
  "find_best (t # rest) mt cx cy ti (bd0, bt0) =
     (if ti \<in> mt then find_best rest mt cx cy (ti + 1) (bd0, bt0)
      else if track_dist t cx cy < bd0
           then find_best rest mt cx cy (ti + 1) (track_dist t cx cy, int ti)
           else find_best rest mt cx cy (ti + 1) (bd0, bt0))"
  by (simp add: track_dist_def Let_def split: prod.splits)

lemma find_best_char:
  "find_best trks mt cx cy ti (bd0, bt0) = (bd, bt) \<Longrightarrow>
     ((bd, bt) = (bd0, bt0) \<and>
      (\<forall>j < length trks. ti + j \<notin> mt \<longrightarrow> \<not> track_dist (trks ! j) cx cy < bd0))
   \<or> (\<exists>k < length trks. ti + k \<notin> mt \<and> bt = int (ti + k) \<and>
        bd = track_dist (trks ! k) cx cy \<and> bd < bd0 \<and>
        (\<forall>j < length trks. ti + j \<notin> mt \<longrightarrow> bd \<le> track_dist (trks ! j) cx cy) \<and>
        (\<forall>j < k. ti + j \<notin> mt \<longrightarrow> bd < track_dist (trks ! j) cx cy))"
proof (induction trks arbitrary: ti bd0 bt0)
  case Nil
  then show ?case by simp
next
  case (Cons t rest)
  let ?d = "track_dist t cx cy"
  consider (skip) "ti \<in> mt" | (better) "ti \<notin> mt" "?d < bd0" | (worse) "ti \<notin> mt" "\<not> ?d < bd0"
    by blast
  then show ?case
  proof cases
    case skip
    with Cons.prems have r: "find_best rest mt cx cy (ti + 1) (bd0, bt0) = (bd, bt)"
      by (simp add: find_best_Cons del: find_best.simps)
    from Cons.IH [OF r] show ?thesis
    proof (elim disjE conjE exE)
      assume a: "(bd, bt) = (bd0, bt0)"
        and b: "\<forall>j<length rest. ti + 1 + j \<notin> mt \<longrightarrow> \<not> track_dist (rest ! j) cx cy < bd0"
      have "\<forall>j<length (t # rest). ti + j \<notin> mt \<longrightarrow> \<not> track_dist ((t # rest) ! j) cx cy < bd0"
      proof (intro allI impI)
        fix j assume j: "j < length (t # rest)" "ti + j \<notin> mt"
        with skip obtain j' where "j = Suc j'" by (cases j) auto
        with j b show "\<not> track_dist ((t # rest) ! j) cx cy < bd0" by simp
      qed
      with a show ?thesis by blast
    next
      fix k
      assume k: "k < length rest" "ti + 1 + k \<notin> mt" "bt = int (ti + 1 + k)"
        "bd = track_dist (rest ! k) cx cy" "bd < bd0"
        and le: "\<forall>j<length rest. ti + 1 + j \<notin> mt \<longrightarrow> bd \<le> track_dist (rest ! j) cx cy"
        and lt: "\<forall>j<k. ti + 1 + j \<notin> mt \<longrightarrow> bd < track_dist (rest ! j) cx cy"
      have le': "\<forall>j<length (t # rest). ti + j \<notin> mt \<longrightarrow> bd \<le> track_dist ((t # rest) ! j) cx cy"
      proof (intro allI impI)
        fix j assume j: "j < length (t # rest)" "ti + j \<notin> mt"
        with skip obtain j' where "j = Suc j'" by (cases j) auto
        with j le show "bd \<le> track_dist ((t # rest) ! j) cx cy" by simp
      qed
      have lt': "\<forall>j<Suc k. ti + j \<notin> mt \<longrightarrow> bd < track_dist ((t # rest) ! j) cx cy"
      proof (intro allI impI)
        fix j assume j: "j < Suc k" "ti + j \<notin> mt"
        with skip obtain j' where "j = Suc j'" by (cases j) auto
        with j lt show "bd < track_dist ((t # rest) ! j) cx cy" by simp
      qed
      show ?thesis
        apply (rule disjI2)
        apply (rule exI [of _ "Suc k"])
        using k le' lt' by simp
    qed
  next
    case better
    with Cons.prems have r: "find_best rest mt cx cy (ti + 1) (?d, int ti) = (bd, bt)"
      by (simp add: find_best_Cons del: find_best.simps)
    from Cons.IH [OF r] show ?thesis
    proof (elim disjE conjE exE)
      assume a: "(bd, bt) = (?d, int ti)"
        and b: "\<forall>j<length rest. ti + 1 + j \<notin> mt \<longrightarrow> \<not> track_dist (rest ! j) cx cy < ?d"
      have le': "\<forall>j<length (t # rest). ti + j \<notin> mt \<longrightarrow> bd \<le> track_dist ((t # rest) ! j) cx cy"
      proof (intro allI impI)
        fix j assume j: "j < length (t # rest)" "ti + j \<notin> mt"
        show "bd \<le> track_dist ((t # rest) ! j) cx cy"
        proof (cases j)
          case 0
          with a show ?thesis by simp
        next
          case (Suc j')
          with j b a show ?thesis by fastforce
        qed
      qed
      show ?thesis
        apply (rule disjI2)
        apply (rule exI [of _ 0])
        using a better le' by simp
    next
      fix k
      assume k: "k < length rest" "ti + 1 + k \<notin> mt" "bt = int (ti + 1 + k)"
        "bd = track_dist (rest ! k) cx cy" "bd < ?d"
        and le: "\<forall>j<length rest. ti + 1 + j \<notin> mt \<longrightarrow> bd \<le> track_dist (rest ! j) cx cy"
        and lt: "\<forall>j<k. ti + 1 + j \<notin> mt \<longrightarrow> bd < track_dist (rest ! j) cx cy"
      have le': "\<forall>j<length (t # rest). ti + j \<notin> mt \<longrightarrow> bd \<le> track_dist ((t # rest) ! j) cx cy"
      proof (intro allI impI)
        fix j assume j: "j < length (t # rest)" "ti + j \<notin> mt"
        show "bd \<le> track_dist ((t # rest) ! j) cx cy"
        proof (cases j)
          case 0
          with k show ?thesis by simp
        next
          case (Suc j')
          with j le show ?thesis by simp
        qed
      qed
      have lt': "\<forall>j<Suc k. ti + j \<notin> mt \<longrightarrow> bd < track_dist ((t # rest) ! j) cx cy"
      proof (intro allI impI)
        fix j assume j: "j < Suc k" "ti + j \<notin> mt"
        show "bd < track_dist ((t # rest) ! j) cx cy"
        proof (cases j)
          case 0
          with k show ?thesis by simp
        next
          case (Suc j')
          with j lt show ?thesis by simp
        qed
      qed
      show ?thesis
        apply (rule disjI2)
        apply (rule exI [of _ "Suc k"])
        using k better le' lt' by simp
    qed
  next
    case worse
    with Cons.prems have r: "find_best rest mt cx cy (ti + 1) (bd0, bt0) = (bd, bt)"
      by (simp add: find_best_Cons del: find_best.simps)
    from Cons.IH [OF r] show ?thesis
    proof (elim disjE conjE exE)
      assume a: "(bd, bt) = (bd0, bt0)"
        and b: "\<forall>j<length rest. ti + 1 + j \<notin> mt \<longrightarrow> \<not> track_dist (rest ! j) cx cy < bd0"
      have "\<forall>j<length (t # rest). ti + j \<notin> mt \<longrightarrow> \<not> track_dist ((t # rest) ! j) cx cy < bd0"
      proof (intro allI impI)
        fix j assume j: "j < length (t # rest)" "ti + j \<notin> mt"
        show "\<not> track_dist ((t # rest) ! j) cx cy < bd0"
        proof (cases j)
          case 0
          with worse show ?thesis by simp
        next
          case (Suc j')
          with j b show ?thesis by simp
        qed
      qed
      with a show ?thesis by blast
    next
      fix k
      assume k: "k < length rest" "ti + 1 + k \<notin> mt" "bt = int (ti + 1 + k)"
        "bd = track_dist (rest ! k) cx cy" "bd < bd0"
        and le: "\<forall>j<length rest. ti + 1 + j \<notin> mt \<longrightarrow> bd \<le> track_dist (rest ! j) cx cy"
        and lt: "\<forall>j<k. ti + 1 + j \<notin> mt \<longrightarrow> bd < track_dist (rest ! j) cx cy"
      have le': "\<forall>j<length (t # rest). ti + j \<notin> mt \<longrightarrow> bd \<le> track_dist ((t # rest) ! j) cx cy"
      proof (intro allI impI)
        fix j assume j: "j < length (t # rest)" "ti + j \<notin> mt"
        show "bd \<le> track_dist ((t # rest) ! j) cx cy"
        proof (cases j)
          case 0
          with k worse show ?thesis by simp
        next
          case (Suc j')
          with j le show ?thesis by simp
        qed
      qed
      have lt': "\<forall>j<Suc k. ti + j \<notin> mt \<longrightarrow> bd < track_dist ((t # rest) ! j) cx cy"
      proof (intro allI impI)
        fix j assume j: "j < Suc k" "ti + j \<notin> mt"
        show "bd < track_dist ((t # rest) ! j) cx cy"
        proof (cases j)
          case 0
          with k worse show ?thesis by simp
        next
          case (Suc j')
          with j lt show ?thesis by simp
        qed
      qed
      show ?thesis
        apply (rule disjI2)
        apply (rule exI [of _ "Suc k"])
        using k le' lt' by simp
    qed
  qed
qed

lemma find_best_0:
  assumes "find_best trks mt cx cy 0 (max_dist, - 1) = (bd, bt)"
  shows "(bt = - 1 \<and> bd = max_dist \<and>
          (\<forall>j < length trks. j \<notin> mt \<longrightarrow> \<not> track_dist (trks ! j) cx cy < max_dist))
       \<or> (0 \<le> bt \<and> nat bt < length trks \<and> nat bt \<notin> mt \<and>
          bd = track_dist (trks ! nat bt) cx cy \<and> bd < max_dist \<and>
          (\<forall>j < length trks. j \<notin> mt \<longrightarrow> bd \<le> track_dist (trks ! j) cx cy) \<and>
          (\<forall>j < nat bt. j \<notin> mt \<longrightarrow> bd < track_dist (trks ! j) cx cy))"
  using find_best_char [OF assms] by auto

section \<open>The steps of an update of the pool\<close>

lemma kalman_update_fields:
  "kalman_update t cx cy = Inr t' \<Longrightarrow> missed t' = 0 \<and> age t' = age t"
  by (auto simp: kalman_update_def Let_def split: sum.splits)

lemma associate_Cons:
  "associate ((cx, cy, w, h) # rest) di max_dist (trks, mt, md) =
     (if 0 \<le> snd (find_best trks mt cx cy 0 (max_dist, - 1))
      then (case kalman_update (trks ! nat (snd (find_best trks mt cx cy 0 (max_dist, - 1)))) cx cy of
              Inl e \<Rightarrow> Inl e
            | Inr t' \<Rightarrow>
                associate rest (di + 1) max_dist
                  (trks[nat (snd (find_best trks mt cx cy 0 (max_dist, - 1))) := t'],
                   insert (nat (snd (find_best trks mt cx cy 0 (max_dist, - 1)))) mt,
                   insert di md))
      else associate rest (di + 1) max_dist (trks, mt, md))"
  by (simp add: split_beta Let_def)

lemma associate_inv:
  "associate dets di max_dist (trks, mt, md) = Inr (trks', mt', md') \<Longrightarrow>
     length trks' = length trks \<and> mt \<subseteq> mt' \<and> md \<subseteq> md' \<and>
     md' \<subseteq> md \<union> {di ..< di + length dets} \<and>
     (\<forall>i. i \<in> mt \<or> i \<notin> mt' \<longrightarrow> trks' ! i = trks ! i) \<and>
     (\<forall>i \<in> mt' - mt. i < length trks \<and> missed (trks' ! i) = 0) \<and>
     map age trks' = map age trks"
proof (induction dets arbitrary: di trks mt md)
  case Nil
  then show ?case by simp
next
  case (Cons d rest)
  obtain cx cy w h where d: "d = (cx, cy, w, h)" by (cases d)
  obtain bd bt where fb: "find_best trks mt cx cy 0 (max_dist, - 1) = (bd, bt)"
    by (cases "find_best trks mt cx cy 0 (max_dist, - 1)")
  show ?case
  proof (cases "0 \<le> bt")
    case False
    with Cons.prems d fb
    have r: "associate rest (di + 1) max_dist (trks, mt, md) = Inr (trks', mt', md')"
      by (simp add: associate_Cons del: associate.simps)
    from Cons.IH [OF r] show ?thesis by auto
  next
    case True
    from find_best_0 [OF fb] True
    have k: "nat bt < length trks" "nat bt \<notin> mt" by auto
    from Cons.prems d fb True obtain t' where
      ku: "kalman_update (trks ! nat bt) cx cy = Inr t'"
      and r: "associate rest (di + 1) max_dist (trks[nat bt := t'], insert (nat bt) mt, insert di md)
                = Inr (trks', mt', md')"
      by (auto simp: associate_Cons simp del: associate.simps split: sum.splits)
    note ih = Cons.IH [OF r]
    from ih have len: "length trks' = length trks" by simp
    from ih have sub: "mt \<subseteq> mt'" "md \<subseteq> md'" "nat bt \<in> mt'" by auto
    from ih have "md' \<subseteq> insert di md \<union> {di + 1 ..< di + 1 + length rest}" by blast
    then have mdb: "md' \<subseteq> md \<union> {di ..< di + length (d # rest)}" by auto
    from ih have same: "\<forall>i. i \<in> insert (nat bt) mt \<or> i \<notin> mt' \<longrightarrow> trks' ! i = trks[nat bt := t'] ! i"
      by blast
    have same': "\<forall>i. i \<in> mt \<or> i \<notin> mt' \<longrightarrow> trks' ! i = trks ! i"
    proof (intro allI impI)
      fix i assume i: "i \<in> mt \<or> i \<notin> mt'"
      with k sub have "i \<noteq> nat bt" by auto
      with same i show "trks' ! i = trks ! i" by auto
    qed
    from ih have new: "\<forall>i \<in> mt' - insert (nat bt) mt. i < length (trks[nat bt := t']) \<and> missed (trks' ! i) = 0"
      by blast
    have new': "\<forall>i \<in> mt' - mt. i < length trks \<and> missed (trks' ! i) = 0"
    proof
      fix i assume i: "i \<in> mt' - mt"
      show "i < length trks \<and> missed (trks' ! i) = 0"
      proof (cases "i = nat bt")
        case True
        with same k have "trks' ! i = t'" by simp
        with kalman_update_fields [OF ku] True k show ?thesis by simp
      next
        case False
        with i new show ?thesis by simp
      qed
    qed
    from ih have "map age trks' = map age (trks[nat bt := t'])" by simp
    also have "\<dots> = (map age trks)[nat bt := age t']" by (simp add: map_update)
    also have "\<dots> = map age trks"
      using kalman_update_fields [OF ku] k by (simp add: list_update_same_conv)
    finally have ages: "map age trks' = map age trks" .
    show ?thesis using len sub mdb same' new' ages by simp
  qed
qed

lemma birth_char:
  "tracks (birth dets di md s) =
     tracks s @ map (\<lambda>(cx, cy, w, h). ObjectKalman_init cx cy)
                  (map snd (filter (\<lambda>(i, d). i \<notin> md) (enumerate di dets))) \<and>
   track_ids (birth dets di md s) =
     track_ids s @ [next_id s .. next_id s + int (length (filter (\<lambda>(i, d). i \<notin> md) (enumerate di dets))) - 1] \<and>
   next_id (birth dets di md s) =
     next_id s + int (length (filter (\<lambda>(i, d). i \<notin> md) (enumerate di dets))) \<and>
   max_distance (birth dets di md s) = max_distance s"
proof (induction dets arbitrary: di s)
  case Nil
  then show ?case by simp
next
  case (Cons d rest)
  obtain cx cy w h where d: "d = (cx, cy, w, h)" by (cases d)
  show ?case
  proof (cases "di \<in> md")
    case True
    with d Cons.IH [of "Suc di" s] show ?thesis by simp
  next
    case False
    let ?s1 = "s\<lparr>tracks := tracks s @ [ObjectKalman_init cx cy],
                  track_ids := track_ids s @ [next_id s],
                  next_id := next_id s + 1\<rparr>"
    let ?n = "length (filter (\<lambda>(i, d). i \<notin> md) (enumerate (Suc di) rest))"
    have u: "[next_id s .. next_id s + (1 + int ?n) - 1] =
               next_id s # [next_id s + 1 .. next_id s + 1 + int ?n - 1]"
      by (subst upto_rec1) (simp_all add: algebra_simps)
    from False d have b: "birth (d # rest) di md s = birth rest (Suc di) md ?s1" by simp
    show ?thesis
      unfolding b using Cons.IH [of "Suc di" ?s1] False d u by (simp add: algebra_simps)
  qed
qed

lemma sorted_wrt_map_snd_filter_zip:
  assumes "sorted_wrt (<) (ids :: int list)"
  shows "sorted_wrt (<) (map snd (filter P (zip ts ids)))"
proof -
  have "sorted_wrt (<) (map snd (zip ts ids))"
    using assms by (simp add: map_snd_zip_take sorted_wrt_take)
  then have "sorted_wrt (\<lambda>a b. snd a < snd b) (zip ts ids)"
    by (simp add: sorted_wrt_map)
  then have "sorted_wrt (\<lambda>a b. snd a < snd b) (filter P (zip ts ids))"
    by (rule sorted_wrt_filter)
  then show ?thesis by (simp add: sorted_wrt_map)
qed

lemma prune_char:
  "zip (tracks (prune s)) (track_ids (prune s)) =
     filter (\<lambda>(t, tid). \<not> stale t) (zip (tracks s) (track_ids s)) \<and>
   tracks (prune s) = map fst (filter (\<lambda>(t, tid). \<not> stale t) (zip (tracks s) (track_ids s))) \<and>
   track_ids (prune s) = map snd (filter (\<lambda>(t, tid). \<not> stale t) (zip (tracks s) (track_ids s))) \<and>
   next_id (prune s) = next_id s \<and> max_distance (prune s) = max_distance s"
  by (simp add: prune_def Let_def zip_map_fst_snd)

lemma s_id_track_result: "s_id (track_result dm (t, tid)) = tid"
  by (simp add: track_result_def split_beta Let_def)

lemma map_s_id_track_result:
  "length ts = length ids \<Longrightarrow> map s_id (map (track_result dm) (zip ts ids)) = ids"
  by (induction ts ids rule: list_induct2) (simp_all add: s_id_track_result)

lemma update_Inr:
  "update s dets = Inr (s', states) \<longleftrightarrow>
     (\<exists>trks2 mt md.
        associate dets 0 (max_distance s) (map predict (tracks s), {}, {}) = Inr (trks2, mt, md) \<and>
        s' = prune (birth dets 0 md (s\<lparr>tracks := trks2\<rparr>)) \<and>
        states = map (track_result (build_det_map dets [])) (zip (tracks s') (track_ids s')))"
  by (auto simp: update_def Let_def split: sum.splits)

lemma length_upto_from: "length [a .. a + int n - 1] = n"
  by simp

lemma not_stale_init: "\<not> stale (ObjectKalman_init cx cy)"
  by (simp add: stale_def ObjectKalman_init_def max_missed_def)

lemma filter_not_stale_newborn:
  "filter (\<lambda>(t, tid). \<not> stale t) (zip (map (\<lambda>(cx, cy, w, h). ObjectKalman_init cx cy) ds) ids) =
     zip (map (\<lambda>(cx, cy, w, h). ObjectKalman_init cx cy) ds) ids"
proof -
  have "\<forall>x \<in> set (zip (map (\<lambda>(cx, cy, w, h). ObjectKalman_init cx cy) ds) ids).
          (\<lambda>(t, tid). \<not> stale t) x"
    by (auto simp: not_stale_init dest!: set_zip_leftD)
  then show ?thesis by (simp only: filter_True)
qed

lemma update_zip:
  assumes len: "length (track_ids s) = length (tracks s)"
    and a: "associate dets 0 (max_distance s) (map predict (tracks s), {}, {}) = Inr (trks2, mt, md)"
    and u: "update s dets = Inr (s', states)"
  shows "zip (tracks s') (track_ids s') =
           filter (\<lambda>(t, tid). \<not> stale t) (zip trks2 (track_ids s)) @
           zip (map (\<lambda>(cx, cy, w, h). ObjectKalman_init cx cy) (unmatched dets md))
               [next_id s .. next_id s + int (length (unmatched dets md)) - 1]"
    and "length (tracks s') = length (track_ids s')"
    and "next_id s' = next_id s + int (length (unmatched dets md))"
    and "max_distance s' = max_distance s"
    and "map s_id states = track_ids s'"
proof -
  from u a have s': "s' = prune (birth dets 0 md (s\<lparr>tracks := trks2\<rparr>))"
    and st: "states = map (track_result (build_det_map dets [])) (zip (tracks s') (track_ids s'))"
    by (auto simp: update_Inr)
  let ?s2 = "s\<lparr>tracks := trks2\<rparr>"
  let ?s3 = "birth dets 0 md ?s2"
  let ?U = "unmatched dets md"
  let ?new = "map (\<lambda>(cx, cy, w, h). ObjectKalman_init cx cy) ?U"
  let ?ids = "[next_id s .. next_id s + int (length ?U) - 1]"
  from associate_inv [OF a] have l2: "length trks2 = length (tracks s)" by simp
  have lU: "length (filter (\<lambda>(i, d). i \<notin> md) (enumerate 0 dets)) = length ?U"
    by (simp add: unmatched_def)
  from birth_char [of dets 0 md ?s2]
  have t3: "tracks ?s3 = trks2 @ ?new"
    and i3: "track_ids ?s3 = track_ids s @ ?ids"
    and n3: "next_id ?s3 = next_id s + int (length ?U)"
    and m3: "max_distance ?s3 = max_distance s"
    by (simp_all add: unmatched_def)
  have z3: "zip (tracks ?s3) (track_ids ?s3) = zip trks2 (track_ids s) @ zip ?new ?ids"
    unfolding t3 i3 using l2 len by simp
  note pc = prune_char [of ?s3, folded s']
  note zp = pc [THEN conjunct1]
  note tp = pc [THEN conjunct2, THEN conjunct1]
  note ip = pc [THEN conjunct2, THEN conjunct2, THEN conjunct1]
  note np = pc [THEN conjunct2, THEN conjunct2, THEN conjunct2, THEN conjunct1]
  note mp = pc [THEN conjunct2, THEN conjunct2, THEN conjunct2, THEN conjunct2]
  show "zip (tracks s') (track_ids s') =
           filter (\<lambda>(t, tid). \<not> stale t) (zip trks2 (track_ids s)) @ zip ?new ?ids"
    unfolding zp z3 by (simp only: filter_append filter_not_stale_newborn)
  show ll: "length (tracks s') = length (track_ids s')"
    unfolding tp ip by simp
  show "next_id s' = next_id s + int (length ?U)"
    using np n3 by simp
  show "max_distance s' = max_distance s"
    using mp m3 by simp
  show "map s_id states = track_ids s'"
    unfolding st using ll by (rule map_s_id_track_result)
qed

lemma sorted_wrt_upto_less: "sorted_wrt (<) [a .. b :: int]"
  by (simp add: strict_sorted_iff)

lemma pool_inv_update:
  assumes inv: "pool_inv s" and u: "update s dets = Inr (s', states)"
  shows "pool_inv s'"
proof -
  from u obtain trks2 mt md where
    a: "associate dets 0 (max_distance s) (map predict (tracks s), {}, {}) = Inr (trks2, mt, md)"
    by (auto simp: update_Inr)
  from inv have len: "length (track_ids s) = length (tracks s)"
    and srt: "sorted_wrt (<) (track_ids s)"
    and lt: "\<forall>tid \<in> set (track_ids s). tid < next_id s"
    and ms: "\<forall>t \<in> set (tracks s). 0 \<le> missed t \<and> missed t < max_missed"
    by (simp_all add: pool_inv_def)
  let ?U = "unmatched dets md"
  let ?new = "map (\<lambda>(cx, cy, w, h). ObjectKalman_init cx cy) ?U"
  let ?ids = "[next_id s .. next_id s + int (length ?U) - 1]"
  note z = update_zip [OF len a u]
  from associate_inv [OF a] have l2: "length trks2 = length (tracks s)"
    and same: "\<forall>i. i \<notin> mt \<longrightarrow> trks2 ! i = map predict (tracks s) ! i"
    and new: "\<forall>i \<in> mt. missed (trks2 ! i) = 0"
    by auto
  have ids': "track_ids s' = map snd (zip (tracks s') (track_ids s'))"
    using z(2) by (simp add: map_snd_zip)
  have trk': "tracks s' = map fst (zip (tracks s') (track_ids s'))"
    using z(2) by (simp add: map_fst_zip)
  have all: "sorted_wrt (<) (track_ids s @ ?ids)"
    using srt lt by (auto simp: sorted_wrt_append sorted_wrt_upto_less)
  have zz: "zip (tracks s') (track_ids s') =
      filter (\<lambda>(t, tid). \<not> stale t) (zip (trks2 @ ?new) (track_ids s @ ?ids))"
    unfolding z(1) using l2 len by (simp add: filter_not_stale_newborn)
  have s1: "sorted_wrt (<) (track_ids s')"
    by (subst ids', unfold zz) (rule sorted_wrt_map_snd_filter_zip [OF all])
  have sub: "set (track_ids s') \<subseteq> set (track_ids s) \<union> set ?ids"
  proof
    fix x assume "x \<in> set (track_ids s')"
    then have "x \<in> snd ` set (zip (tracks s') (track_ids s'))"
      using ids' by (metis set_map)
    then show "x \<in> set (track_ids s) \<union> set ?ids"
      unfolding zz by (auto dest!: set_zip_rightD)
  qed
  have s2: "\<forall>tid \<in> set (track_ids s'). tid < next_id s'"
    using sub lt z(3) by fastforce
  have s3: "\<forall>t \<in> set (tracks s'). 0 \<le> missed t \<and> missed t < max_missed"
  proof
    fix t assume "t \<in> set (tracks s')"
    then have "t \<in> fst ` set (zip (tracks s') (track_ids s'))"
      using trk' by (metis set_map)
    then have ns: "\<not> stale t" and mem: "t \<in> set trks2 \<or> t \<in> set ?new"
      unfolding zz by (auto dest!: set_zip_leftD)
    from mem have "0 \<le> missed t"
    proof
      assume "t \<in> set trks2"
      then obtain i where i: "i < length trks2" "t = trks2 ! i"
        by (auto simp: in_set_conv_nth)
      show ?thesis
      proof (cases "i \<in> mt")
        case True
        with new i show ?thesis by simp
      next
        case False
        with same i l2 have "t = predict (tracks s ! i)" by simp
        moreover have "0 \<le> missed (tracks s ! i)" using ms i l2 by simp
        ultimately show ?thesis by (simp add: predict_def)
      qed
    next
      assume "t \<in> set ?new"
      then show ?thesis by (auto simp: ObjectKalman_init_def)
    qed
    with ns show "0 \<le> missed t \<and> missed t < max_missed"
      by (simp add: stale_def)
  qed
  show ?thesis
    unfolding pool_inv_def using z(2) s1 s2 s3 by simp
qed

lemma pool_inv_init: "pool_inv (StateEstimator_init d)"
  by (simp add: pool_inv_def StateEstimator_init_def)

lemma update_ids:
  assumes inv: "pool_inv s" and u: "update s dets = Inr (s', states)"
  shows "\<exists>kept n. subseq kept (track_ids s) \<and>
           track_ids s' = kept @ [next_id s .. next_id s + int n - 1] \<and>
           next_id s' = next_id s + int n"
proof -
  from u obtain trks2 mt md where
    a: "associate dets 0 (max_distance s) (map predict (tracks s), {}, {}) = Inr (trks2, mt, md)"
    by (auto simp: update_Inr)
  from inv have len: "length (track_ids s) = length (tracks s)"
    by (simp add: pool_inv_def)
  let ?U = "unmatched dets md"
  let ?new = "map (\<lambda>(cx, cy, w, h). ObjectKalman_init cx cy) ?U"
  let ?ids = "[next_id s .. next_id s + int (length ?U) - 1]"
  let ?kept = "map snd (filter (\<lambda>(t, tid). \<not> stale t) (zip trks2 (track_ids s)))"
  note z = update_zip [OF len a u]
  from associate_inv [OF a] have l2: "length trks2 = length (tracks s)" by simp
  have "track_ids s' = map snd (zip (tracks s') (track_ids s'))"
    using z(2) by (simp add: map_snd_zip)
  also have "\<dots> = ?kept @ ?ids"
    unfolding z(1) by (simp add: map_snd_zip)
  finally have ids: "track_ids s' = ?kept @ ?ids" .
  have "subseq (map snd (filter (\<lambda>(t, tid). \<not> stale t) (zip trks2 (track_ids s))))
               (map snd (zip trks2 (track_ids s)))"
    by (intro subseq_map subseq_filter_left)
  then have "subseq ?kept (track_ids s)"
    using l2 len by (simp add: map_snd_zip)
  with ids z(3) show ?thesis by blast
qed

lemma missed_predict: "missed (predict t) = missed t + 1"
  by (simp add: predict_def)

lemma missed_init: "missed (ObjectKalman_init cx cy) = 0"
  by (simp add: ObjectKalman_init_def)

lemma run_updates_Nil: "run_updates s [] = Inr s"
  by simp

lemma run_updates_first_birth:
  "run_updates (StateEstimator_init d) ([(cx, cy, w, h)] # frames) =
     run_updates \<lparr>tracks = [ObjectKalman_init cx cy], max_distance = d, next_id = 1,
                  track_ids = [0]\<rparr> frames"
  by (simp add: update_def prune_def StateEstimator_init_def not_stale_init Let_def)

lemma run_updates_miss:
  "run_updates \<lparr>tracks = [t], max_distance = d, next_id = n, track_ids = [tid]\<rparr> ([] # frames) =
     (if missed t + 1 < max_missed
      then run_updates \<lparr>tracks = [predict t], max_distance = d, next_id = n, track_ids = [tid]\<rparr> frames
      else run_updates \<lparr>tracks = [], max_distance = d, next_id = n, track_ids = []\<rparr> frames)"
  by (simp add: update_def prune_def stale_def missed_predict Let_def)

section \<open>The identifiers of the tracks\<close>

lemma subseq_set_subset: "subseq xs ys \<Longrightarrow> set xs \<subseteq> set ys"
  by (auto dest: list_emb_set)

lemma run_updates_inv:
  "pool_inv s \<Longrightarrow> run_updates s frames = Inr s' \<Longrightarrow>
     pool_inv s' \<and> next_id s \<le> next_id s' \<and>
     (\<forall>tid \<in> set (track_ids s'). tid \<in> set (track_ids s) \<or> next_id s \<le> tid)"
proof (induction frames arbitrary: s)
  case Nil
  then show ?case by simp
next
  case (Cons dets frames)
  from Cons.prems(2) obtain s1 states where
    u: "update s dets = Inr (s1, states)" and r: "run_updates s1 frames = Inr s'"
    by (auto split: sum.splits)
  from pool_inv_update [OF Cons.prems(1) u] have i1: "pool_inv s1" .
  from update_ids [OF Cons.prems(1) u] obtain kept n where
    k: "subseq kept (track_ids s)"
    "track_ids s1 = kept @ [next_id s .. next_id s + int n - 1]"
    "next_id s1 = next_id s + int n"
    by blast
  from Cons.IH [OF i1 r] have ih: "pool_inv s'" "next_id s1 \<le> next_id s'"
    "\<forall>tid \<in> set (track_ids s'). tid \<in> set (track_ids s1) \<or> next_id s1 \<le> tid"
    by simp_all
  have "\<forall>tid \<in> set (track_ids s'). tid \<in> set (track_ids s) \<or> next_id s \<le> tid"
  proof
    fix tid assume "tid \<in> set (track_ids s')"
    with ih(3) have "tid \<in> set (track_ids s1) \<or> next_id s1 \<le> tid" by simp
    then show "tid \<in> set (track_ids s) \<or> next_id s \<le> tid"
      using k subseq_set_subset [OF k(1)] by auto
  qed
  with ih k show ?case by simp
qed

text \<open>
  Claim C9.  The pool starts in the invariant and every \<^verbatim>\<open>update\<close> that returns keeps it:
  the identifiers of the live tracks are distinct, stand in strictly increasing order and are
  all below \<open>_next_id\<close>, and the states returned carry them in that order.  An \<^verbatim>\<open>update\<close>
  keeps a subsequence of the identifiers it found, each with the track it stood with (the
  pairs of a track and its identifier are filtered together), and appends one new identifier
  for each unmatched observation, in the order of the observations: \<open>_next_id\<close>,
  \<open>_next_id + 1\<close>, and so on, \<open>_next_id\<close> growing by their number.  Over any run of frames
  \<open>_next_id\<close> never decreases, and an identifier below \<open>_next_id\<close> that is not live (one that
  was pruned) is never live again.  Two observations at \<open>(50, 50)\<close> and \<open>(400, 50)\<close> given to
  an empty pool birth the tracks 0 and 1 in that order.
\<close>

theorem track_ids_unique_increasing:
  "pool_inv (StateEstimator_init d) \<and>
   (pool_inv s \<longrightarrow>
      length (track_ids s) = length (tracks s) \<and> distinct (track_ids s) \<and>
      sorted_wrt (<) (track_ids s) \<and> (\<forall>tid \<in> set (track_ids s). tid < next_id s)) \<and>
   (pool_inv s \<and> update s dets = Inr (s', states) \<longrightarrow>
      pool_inv s' \<and> map s_id states = track_ids s' \<and>
      (\<exists>kept n. subseq kept (track_ids s) \<and>
         track_ids s' = kept @ [next_id s .. next_id s + int n - 1] \<and>
         next_id s' = next_id s + int n)) \<and>
   (pool_inv s \<and> update s dets = Inr (s', states) \<and>
    associate dets 0 (max_distance s) (map predict (tracks s), {}, {}) = Inr (trks', mt, md) \<longrightarrow>
      zip (tracks s') (track_ids s') =
        filter (\<lambda>(t, tid). \<not> stale t) (zip trks' (track_ids s)) @
        zip (map (\<lambda>(cx, cy, w, h). ObjectKalman_init cx cy) (unmatched dets md))
            [next_id s .. next_id s + int (length (unmatched dets md)) - 1] \<and>
      next_id s' = next_id s + int (length (unmatched dets md))) \<and>
   (pool_inv s \<and> run_updates s frames = Inr s'' \<longrightarrow>
      pool_inv s'' \<and> next_id s \<le> next_id s'' \<and>
      (\<forall>tid. tid < next_id s \<and> tid \<notin> set (track_ids s) \<longrightarrow> tid \<notin> set (track_ids s''))) \<and>
   update (StateEstimator_init default_max_distance) [(50, 50, 20, 30), (400, 50, 10, 10)] =
     Inr (\<lparr>tracks = [ObjectKalman_init 50 50, ObjectKalman_init 400 50],
           max_distance = 80, next_id = 2, track_ids = [0, 1]\<rparr>,
          [\<lparr>s_id = 0, s_cx = 50, s_cy = 50, s_vx = 0, s_vy = 0, s_speed = 0,
            s_w = 20, s_h = 30, s_age = 0\<rparr>,
           \<lparr>s_id = 1, s_cx = 400, s_cy = 50, s_vx = 0, s_vy = 0, s_speed = 0,
            s_w = 10, s_h = 10, s_age = 0\<rparr>])"
proof (intro conjI impI)
  show "pool_inv (StateEstimator_init d)" by (rule pool_inv_init)
next
  assume "pool_inv s"
  then show "length (track_ids s) = length (tracks s)"
    and "distinct (track_ids s)" and "sorted_wrt (<) (track_ids s)"
    and "\<forall>tid \<in> set (track_ids s). tid < next_id s"
    by (simp_all add: pool_inv_def strict_sorted_iff)
next
  assume h: "pool_inv s \<and> update s dets = Inr (s', states)"
  then have inv: "pool_inv s" and u: "update s dets = Inr (s', states)" by simp_all
  show "pool_inv s'" using inv u by (rule pool_inv_update)
  from u obtain trks' mt md where
    a: "associate dets 0 (max_distance s) (map predict (tracks s), {}, {}) = Inr (trks', mt, md)"
    by (auto simp: update_Inr)
  from inv have len: "length (track_ids s) = length (tracks s)" by (simp add: pool_inv_def)
  show "map s_id states = track_ids s'" using update_zip(5) [OF len a u] .
  show "\<exists>kept n. subseq kept (track_ids s) \<and>
         track_ids s' = kept @ [next_id s .. next_id s + int n - 1] \<and>
         next_id s' = next_id s + int n"
    using inv u by (rule update_ids)
next
  assume h: "pool_inv s \<and> update s dets = Inr (s', states) \<and>
    associate dets 0 (max_distance s) (map predict (tracks s), {}, {}) = Inr (trks', mt, md)"
  then have len: "length (track_ids s) = length (tracks s)" by (simp add: pool_inv_def)
  from h have u: "update s dets = Inr (s', states)"
    and a: "associate dets 0 (max_distance s) (map predict (tracks s), {}, {}) = Inr (trks', mt, md)"
    by simp_all
  show "zip (tracks s') (track_ids s') =
        filter (\<lambda>(t, tid). \<not> stale t) (zip trks' (track_ids s)) @
        zip (map (\<lambda>(cx, cy, w, h). ObjectKalman_init cx cy) (unmatched dets md))
            [next_id s .. next_id s + int (length (unmatched dets md)) - 1]"
    using update_zip(1) [OF len a u] .
  show "next_id s' = next_id s + int (length (unmatched dets md))"
    using update_zip(3) [OF len a u] .
next
  assume h: "pool_inv s \<and> run_updates s frames = Inr s''"
  then have r: "pool_inv s'' \<and> next_id s \<le> next_id s'' \<and>
     (\<forall>tid \<in> set (track_ids s''). tid \<in> set (track_ids s) \<or> next_id s \<le> tid)"
    using run_updates_inv [of s frames s''] by simp
  then show "pool_inv s''" and "next_id s \<le> next_id s''" by simp_all
  from r show "\<forall>tid. tid < next_id s \<and> tid \<notin> set (track_ids s) \<longrightarrow> tid \<notin> set (track_ids s'')"
    by fastforce
next
  show "update (StateEstimator_init default_max_distance) [(50, 50, 20, 30), (400, 50, 10, 10)] =
     Inr (\<lparr>tracks = [ObjectKalman_init 50 50, ObjectKalman_init 400 50],
           max_distance = 80, next_id = 2, track_ids = [0, 1]\<rparr>,
          [\<lparr>s_id = 0, s_cx = 50, s_cy = 50, s_vx = 0, s_vy = 0, s_speed = 0,
            s_w = 20, s_h = 30, s_age = 0\<rparr>,
           \<lparr>s_id = 1, s_cx = 400, s_cy = 50, s_vx = 0, s_vy = 0, s_speed = 0,
            s_w = 10, s_h = 10, s_age = 0\<rparr>])"
    by (simp add: update_def prune_def StateEstimator_init_def default_max_distance_def
        not_stale_init track_result_def position_def velocity_def speed_def py_round_def
        hypot_less_iff hypot_zero_right ObjectKalman_init_def stale_def max_missed_def Let_def)
qed

theorem track_ids_unique_increasing_witness:
  "pool_inv (StateEstimator_init 80) \<and>
   update (StateEstimator_init 80) [(50, 50, 20, 30), (400, 50, 10, 10)] =
     Inr (\<lparr>tracks = [ObjectKalman_init 50 50, ObjectKalman_init 400 50],
           max_distance = 80, next_id = 2, track_ids = [0, 1]\<rparr>,
          [\<lparr>s_id = 0, s_cx = 50, s_cy = 50, s_vx = 0, s_vy = 0, s_speed = 0,
            s_w = 20, s_h = 30, s_age = 0\<rparr>,
           \<lparr>s_id = 1, s_cx = 400, s_cy = 50, s_vx = 0, s_vy = 0, s_speed = 0,
            s_w = 10, s_h = 10, s_age = 0\<rparr>]) \<and>
   pool_inv \<lparr>tracks = [ObjectKalman_init 50 50, ObjectKalman_init 400 50],
             max_distance = 80, next_id = 2, track_ids = [0, 1]\<rparr> \<and>
   run_updates (StateEstimator_init 80) [[(50, 50, 20, 30), (400, 50, 10, 10)]] =
     Inr \<lparr>tracks = [ObjectKalman_init 50 50, ObjectKalman_init 400 50],
          max_distance = 80, next_id = 2, track_ids = [0, 1]\<rparr> \<and>
   unmatched [(50, 50, 20, 30), (400, 50, 10, 10)] {} = [(50, 50, 20, 30), (400, 50, 10, 10)] \<and>
   zip (map (\<lambda>(cx, cy, w, h). ObjectKalman_init cx cy)
          (unmatched [(50, 50, 20, 30), (400, 50, 10, 10)] {})) [0 .. 1] =
     [(ObjectKalman_init 50 50, 0), (ObjectKalman_init 400 50, 1)]"
proof -
  let ?s = "StateEstimator_init 80"
  let ?dets = "[(50, 50, 20, 30), (400, 50, 10, 10)] :: detection list"
  let ?s' = "\<lparr>tracks = [ObjectKalman_init 50 50, ObjectKalman_init 400 50],
              max_distance = 80, next_id = 2, track_ids = [0, 1]\<rparr>"
  let ?st = "[\<lparr>s_id = 0, s_cx = 50, s_cy = 50, s_vx = 0, s_vy = 0, s_speed = 0,
            s_w = 20, s_h = 30, s_age = 0\<rparr>,
           \<lparr>s_id = 1, s_cx = 400, s_cy = 50, s_vx = 0, s_vy = 0, s_speed = 0,
            s_w = 10, s_h = 10, s_age = 0\<rparr>]"
  note T = track_ids_unique_increasing [where d = 80 and s = ?s and dets = ?dets and s' = ?s'
      and states = ?st]
  have i: "pool_inv ?s" using T [THEN conjunct1] .
  have u: "update ?s ?dets = Inr (?s', ?st)"
    using T [THEN conjunct2, THEN conjunct2, THEN conjunct2, THEN conjunct2, THEN conjunct2]
    by (simp add: default_max_distance_def)
  have "pool_inv ?s \<and> update ?s ?dets = Inr (?s', ?st) \<longrightarrow> pool_inv ?s'"
    using T [THEN conjunct2, THEN conjunct2, THEN conjunct1] by blast
  with i u have i': "pool_inv ?s'" by blast
  have r: "run_updates ?s [?dets] = Inr ?s'"
    using u by simp
  have "pool_inv ?s \<and> run_updates ?s [?dets] = Inr ?s' \<longrightarrow>
      pool_inv ?s' \<and> next_id ?s \<le> next_id ?s'"
    using track_ids_unique_increasing [where s = ?s and frames = "[?dets]" and s'' = ?s',
        THEN conjunct2, THEN conjunct2, THEN conjunct2, THEN conjunct2, THEN conjunct1]
    by blast
  with i r have "next_id ?s \<le> next_id ?s'" by blast
  have a: "associate ?dets 0 (max_distance ?s) (map predict (tracks ?s), {}, {}) = Inr ([], {}, {})"
    by (simp add: StateEstimator_init_def)
  have um: "unmatched ?dets {} = ?dets"
    by (simp add: unmatched_def enumerate_eq_zip upt_rec)
  have "pool_inv ?s \<and> update ?s ?dets = Inr (?s', ?st) \<and>
      associate ?dets 0 (max_distance ?s) (map predict (tracks ?s), {}, {}) = Inr ([], {}, {}) \<longrightarrow>
      zip (tracks ?s') (track_ids ?s') =
        filter (\<lambda>(t, tid). \<not> stale t) (zip [] (track_ids ?s)) @
        zip (map (\<lambda>(cx, cy, w, h). ObjectKalman_init cx cy) (unmatched ?dets {}))
            [next_id ?s .. next_id ?s + int (length (unmatched ?dets {})) - 1]"
    using track_ids_unique_increasing [where s = ?s and dets = ?dets and s' = ?s' and states = ?st
        and trks' = "[]" and mt = "{}" and md = "{}",
        THEN conjunct2, THEN conjunct2, THEN conjunct2, THEN conjunct1]
    by blast
  with i u a have z: "zip (tracks ?s') (track_ids ?s') =
        filter (\<lambda>(t, tid). \<not> stale t) (zip [] (track_ids ?s)) @
        zip (map (\<lambda>(cx, cy, w, h). ObjectKalman_init cx cy) (unmatched ?dets {}))
            [next_id ?s .. next_id ?s + int (length (unmatched ?dets {})) - 1]"
    by blast
  have "zip (map (\<lambda>(cx, cy, w, h). ObjectKalman_init cx cy) (unmatched ?dets {})) [0 .. 1] =
     [(ObjectKalman_init 50 50, 0), (ObjectKalman_init 400 50, 1)]"
    using z by (simp add: um StateEstimator_init_def)
  with i u i' r um show ?thesis by blast
qed


section \<open>The tracks that are not matched\<close>

lemma unmatched_track_next:
  assumes inv: "pool_inv s"
    and a: "associate dets 0 (max_distance s) (map predict (tracks s), {}, {}) = Inr (trks2, mt, md)"
    and u: "update s dets = Inr (s', states)"
    and i: "i < length (tracks s)" "i \<notin> mt"
  shows "trks2 ! i = predict (tracks s ! i)"
    and "\<not> stale (predict (tracks s ! i)) \<Longrightarrow>
           map_of (zip (track_ids s') (tracks s')) (track_ids s ! i) = Some (predict (tracks s ! i))"
    and "stale (predict (tracks s ! i)) \<Longrightarrow> track_ids s ! i \<notin> set (track_ids s')"
proof -
  let ?P = "\<lambda>(t, tid). \<not> stale t"
  let ?t2 = "predict (tracks s ! i)"
  let ?tid = "track_ids s ! i"
  let ?U = "unmatched dets md"
  let ?new = "map (\<lambda>(cx, cy, w, h). ObjectKalman_init cx cy) ?U"
  let ?ids = "[next_id s .. next_id s + int (length ?U) - 1]"
  from inv have len: "length (track_ids s) = length (tracks s)"
    and dist: "distinct (track_ids s)"
    and lt: "\<forall>tid \<in> set (track_ids s). tid < next_id s"
    by (simp_all add: pool_inv_def strict_sorted_iff)
  from associate_inv [OF a] have l2: "length trks2 = length (tracks s)"
    and same: "\<forall>i. i \<notin> mt \<longrightarrow> trks2 ! i = map predict (tracks s) ! i"
    by auto
  from same i show t2: "trks2 ! i = ?t2" by simp
  note z = update_zip [OF len a u]
  have inv': "pool_inv s'" using inv u by (rule pool_inv_update)
  then have dist': "distinct (track_ids s')" by (simp add: pool_inv_def strict_sorted_iff)
  have mem: "(?t2, ?tid) \<in> set (zip trks2 (track_ids s))"
    using t2 i l2 len by (auto simp: in_set_zip)
  {
    assume "\<not> stale ?t2"
    with mem have "(?t2, ?tid) \<in> set (zip (tracks s') (track_ids s'))"
      unfolding z(1) by simp
    then have "(?tid, ?t2) \<in> set (zip (track_ids s') (tracks s'))"
      by (auto simp: in_set_zip)
    moreover have "distinct (map fst (zip (track_ids s') (tracks s')))"
      using dist' z(2) by (simp add: map_fst_zip)
    ultimately show "map_of (zip (track_ids s') (tracks s')) ?tid = Some ?t2"
      by (simp add: map_of_eq_Some_iff)
  }
  {
    assume st: "stale ?t2"
    show "?tid \<notin> set (track_ids s')"
    proof
      assume "?tid \<in> set (track_ids s')"
      then have "?tid \<in> snd ` set (zip (tracks s') (track_ids s'))"
        using z(2) by (metis map_snd_zip set_map)
      moreover have "snd ` set (zip ?new ?ids) \<subseteq> set ?ids"
        by (auto dest: set_zip_rightD)
      ultimately have "?tid \<in> snd ` set (filter ?P (zip trks2 (track_ids s))) \<or> ?tid \<in> set ?ids"
        unfolding z(1) by (auto simp: image_Un)
      then show False
      proof
        assume "?tid \<in> snd ` set (filter ?P (zip trks2 (track_ids s)))"
        then obtain t where t: "(t, ?tid) \<in> set (zip trks2 (track_ids s))" "\<not> stale t"
          by auto
        then obtain j where j: "j < length trks2" "j < length (track_ids s)"
          "trks2 ! j = t" "track_ids s ! j = ?tid"
          by (auto simp: in_set_zip)
        with dist i len have "j = i" by (simp add: nth_eq_iff_index_eq)
        with j t2 t st show False by simp
      next
        assume "?tid \<in> set ?ids"
        then have "next_id s \<le> ?tid" by simp
        moreover have "?tid < next_id s" using lt i len by simp
        ultimately show False by simp
      qed
    qed
  }
qed

lemma missed_lt_max:
  "pool_inv s \<Longrightarrow> i < length (tracks s) \<Longrightarrow>
     0 \<le> missed (tracks s ! i) \<and> missed (tracks s ! i) < max_missed"
  by (simp add: pool_inv_def)

text \<open>
  Claim C2, as the code has it.  \<^verbatim>\<open>predict\<close> adds exactly 1 to \<open>missed\<close>, and \<^verbatim>\<open>stale\<close> is
  \<open>missed \<ge> 10\<close>.  In a frame whose association returns, \<^verbatim>\<open>update\<close> returns; a track of a
  pool in the invariant that is not matched in the frame leaves the association as
  \<^verbatim>\<open>predict\<close> made it.  Its count was below 10, so it is at most 10 now.  When the count is
  still below 10 the track stays in the pool under its identifier, with the count one more
  than before.  When the count has reached 10 the identifier is gone from the pool and from
  the states returned, and main.py deletes its predictor: the track is removed at the frame
  where \<open>missed\<close> first reaches 10, it is never removed earlier, and the count never reaches
  11.
\<close>

theorem unmatched_track_missed_and_pruned:
  "max_missed = 10 \<and>
   missed (predict t) = missed t + 1 \<and>
   (associate dets 0 (max_distance s) (map predict (tracks s), {}, {}) = Inr (trks', mt, md) \<longrightarrow>
      (\<exists>s' states. update s dets = Inr (s', states))) \<and>
   (pool_inv s \<and>
    associate dets 0 (max_distance s) (map predict (tracks s), {}, {}) = Inr (trks', mt, md) \<and>
    update s dets = Inr (s', states) \<and> i < length (tracks s) \<and> i \<notin> mt \<longrightarrow>
      pool_inv s' \<and>
      trks' ! i = predict (tracks s ! i) \<and>
      0 \<le> missed (tracks s ! i) \<and> missed (tracks s ! i) + 1 \<le> max_missed \<and>
      (missed (tracks s ! i) + 1 < max_missed \<longrightarrow>
         track_ids s ! i \<in> set (track_ids s') \<and>
         map_of (zip (track_ids s') (tracks s')) (track_ids s ! i) = Some (predict (tracks s ! i))) \<and>
      (missed (tracks s ! i) + 1 = max_missed \<longrightarrow>
         track_ids s ! i \<notin> set (track_ids s') \<and>
         track_ids s ! i \<notin> set (map s_id states) \<and>
         track_ids s ! i \<notin> fst ` set (delete_dead predictors states)))"
proof (intro conjI impI)
  show "max_missed = 10" by (simp add: max_missed_def)
  show "missed (predict t) = missed t + 1" by (rule missed_predict)
  show "\<exists>s' states. update s dets = Inr (s', states)"
    if "associate dets 0 (max_distance s) (map predict (tracks s), {}, {}) = Inr (trks', mt, md)"
    using that by (simp add: update_def Let_def)
next
  assume h: "pool_inv s \<and>
    associate dets 0 (max_distance s) (map predict (tracks s), {}, {}) = Inr (trks', mt, md) \<and>
    update s dets = Inr (s', states) \<and> i < length (tracks s) \<and> i \<notin> mt"
  then have inv: "pool_inv s"
    and a: "associate dets 0 (max_distance s) (map predict (tracks s), {}, {}) = Inr (trks', mt, md)"
    and u: "update s dets = Inr (s', states)"
    and i: "i < length (tracks s)" "i \<notin> mt"
    by simp_all
  note n = unmatched_track_next [OF inv a u i]
  from inv have len: "length (track_ids s) = length (tracks s)" by (simp add: pool_inv_def)
  have ids: "map s_id states = track_ids s'" using update_zip(5) [OF len a u] .
  show "pool_inv s'" using inv u by (rule pool_inv_update)
  show "trks' ! i = predict (tracks s ! i)" by (rule n(1))
  show "0 \<le> missed (tracks s ! i)" using missed_lt_max [OF inv i(1)] by simp
  show "missed (tracks s ! i) + 1 \<le> max_missed" using missed_lt_max [OF inv i(1)] by simp
  {
    assume "missed (tracks s ! i) + 1 < max_missed"
    then have ns: "\<not> stale (predict (tracks s ! i))"
      by (simp add: stale_def missed_predict)
    show m: "map_of (zip (track_ids s') (tracks s')) (track_ids s ! i) = Some (predict (tracks s ! i))"
      using n(2) [OF ns] .
    from map_of_SomeD [OF m] show "track_ids s ! i \<in> set (track_ids s')"
      by (rule set_zip_leftD)
  }
  {
    assume "missed (tracks s ! i) + 1 = max_missed"
    then have st: "stale (predict (tracks s ! i))"
      by (simp add: stale_def missed_predict)
    show g: "track_ids s ! i \<notin> set (track_ids s')" using n(3) [OF st] .
    then show "track_ids s ! i \<notin> set (map s_id states)" using ids by simp
    with g ids show "track_ids s ! i \<notin> fst ` set (delete_dead predictors states)"
      by (auto simp: delete_dead_def)
  }
qed

theorem unmatched_track_missed_and_pruned_witness:
  "pool_inv \<lparr>tracks = [ObjectKalman_init 50 50], max_distance = 80, next_id = 1, track_ids = [0]\<rparr> \<and>
   associate [] 0 80 (map predict [ObjectKalman_init 50 50], {}, {}) =
     Inr ([predict (ObjectKalman_init 50 50)], {}, {}) \<and>
   update \<lparr>tracks = [ObjectKalman_init 50 50], max_distance = 80, next_id = 1, track_ids = [0]\<rparr> [] =
     Inr (\<lparr>tracks = [predict (ObjectKalman_init 50 50)], max_distance = 80, next_id = 1,
           track_ids = [0]\<rparr>,
          [track_result [] (predict (ObjectKalman_init 50 50), 0)]) \<and>
   missed (predict (ObjectKalman_init 50 50)) = 1 \<and>
   map_of (zip [0] [predict (ObjectKalman_init 50 50)]) (0::int) =
     Some (predict (ObjectKalman_init 50 50)) \<and>
   pool_inv \<lparr>tracks = [(ObjectKalman_init 50 50)\<lparr>missed := 9\<rparr>], max_distance = 80,
             next_id = 1, track_ids = [0]\<rparr> \<and>
   update \<lparr>tracks = [(ObjectKalman_init 50 50)\<lparr>missed := 9\<rparr>], max_distance = 80,
           next_id = 1, track_ids = [0]\<rparr> [] =
     Inr (\<lparr>tracks = [], max_distance = 80, next_id = 1, track_ids = []\<rparr>, []) \<and>
   (0::int) \<notin> set []"
proof -
  let ?t = "ObjectKalman_init 50 50"
  let ?s = "\<lparr>tracks = [?t], max_distance = 80, next_id = 1, track_ids = [0]\<rparr>"
  let ?s' = "\<lparr>tracks = [predict ?t], max_distance = 80, next_id = 1, track_ids = [0]\<rparr>"
  let ?st = "[track_result [] (predict ?t, 0)]"
  have inv: "pool_inv ?s"
    by (simp add: pool_inv_def missed_init max_missed_def)
  have a: "associate [] 0 (max_distance ?s) (map predict (tracks ?s), {}, {}) = Inr ([predict ?t], {}, {})"
    by simp
  have u: "update ?s [] = Inr (?s', ?st)"
    by (simp add: update_def prune_def stale_def max_missed_def missed_predict missed_init Let_def)
  note T = unmatched_track_missed_and_pruned [where s = ?s and dets = "[]" and trks' = "[predict ?t]"
      and mt = "{}" and md = "{}" and s' = ?s' and states = ?st and i = 0 and t = ?t]
  have m: "missed (predict ?t) = missed ?t + 1"
    using T [THEN conjunct2, THEN conjunct1] .
  have "missed (tracks ?s ! 0) + 1 < max_missed \<longrightarrow>
         map_of (zip (track_ids ?s') (tracks ?s')) (track_ids ?s ! 0) = Some (predict (tracks ?s ! 0))"
    using T [THEN conjunct2, THEN conjunct2, THEN conjunct2] inv a u by simp
  then have k: "map_of (zip [0] [predict ?t]) (0::int) = Some (predict ?t)"
    by simp
  let ?t9 = "?t\<lparr>missed := 9\<rparr>"
  let ?s9 = "\<lparr>tracks = [?t9], max_distance = 80, next_id = 1, track_ids = [0]\<rparr>"
  let ?e = "\<lparr>tracks = [], max_distance = 80, next_id = 1, track_ids = []\<rparr>"
  have inv9: "pool_inv ?s9"
    by (simp add: pool_inv_def max_missed_def)
  have a9: "associate [] 0 (max_distance ?s9) (map predict (tracks ?s9), {}, {}) =
      Inr ([predict ?t9], {}, {})"
    by simp
  have u9: "update ?s9 [] = Inr (?e, [])"
    by (simp add: update_def prune_def stale_def max_missed_def missed_predict Let_def)
  have "missed (tracks ?s9 ! 0) + 1 = max_missed \<longrightarrow> track_ids ?s9 ! 0 \<notin> set (track_ids ?e)"
    using unmatched_track_missed_and_pruned [where s = ?s9 and dets = "[]" and trks' = "[predict ?t9]"
      and mt = "{}" and md = "{}" and s' = ?e and states = "[]" and i = 0,
      THEN conjunct2, THEN conjunct2, THEN conjunct2] inv9 a9 u9
    by simp
  then have g: "(0::int) \<notin> set []"
    by simp
  from inv a u m k inv9 u9 g show ?thesis by (simp add: missed_init)
qed

text \<open>
  The claim as written has the track removed at the frame where the count reaches 11.  A
  track born in the first frame and never matched is in the pool, with the count 9, after
  nine frames without observations, and is gone after the tenth.
\<close>

theorem track_removed_at_ten_counterexample:
  "\<not> isl (run_updates (StateEstimator_init 80)
            [[(50, 50, 10, 10)], [], [], [], [], [], [], [], [], []]) \<and>
   track_ids (projr (run_updates (StateEstimator_init 80)
            [[(50, 50, 10, 10)], [], [], [], [], [], [], [], [], []])) = [0] \<and>
   map missed (tracks (projr (run_updates (StateEstimator_init 80)
            [[(50, 50, 10, 10)], [], [], [], [], [], [], [], [], []]))) = [9] \<and>
   \<not> isl (run_updates (StateEstimator_init 80)
            [[(50, 50, 10, 10)], [], [], [], [], [], [], [], [], [], []]) \<and>
   track_ids (projr (run_updates (StateEstimator_init 80)
            [[(50, 50, 10, 10)], [], [], [], [], [], [], [], [], [], []])) = []"
  by (simp add: run_updates_first_birth run_updates_miss max_missed_def
      missed_predict missed_init del: run_updates.simps(2))

section \<open>The association of the observations\<close>







section \<open>The size reported for a track\<close>


















end
